theory Spec2Isabelle
  imports Main "HOL-Library.Word" "HOL-Library.Signed_Division"
begin

unbundle bit_operations_syntax

section \<open>Data model of the polling engine\<close>

text \<open>
  The embedded source is the polling file of APR (\<open>apr_poll\<close>, \<open>apr_pollset_create\<close>,
  \<open>apr_pollset_destroy\<close>, \<open>apr_pollset_add\<close>, \<open>apr_pollset_remove\<close>,
  \<open>apr_pollset_poll\<close>). The file is compiled in one of two ways: with \<open>HAVE_POLL\<close>
  (the event-list backend, on top of \<open>poll\<close>) or without it (the bitmap backend, on top
  of \<open>select\<close>). Each function that differs between the two builds is embedded twice,
  with the suffix \<open>_poll\<close> or \<open>_select\<close>.
\<close>

type_synonym apr_int16_t = "16 word"
type_synonym apr_uint32_t = "32 word"

text \<open>
  \<open>apr_interval_time_t\<close> is APR's 64-bit signed time (\<open>apr_int64_t\<close>), in microseconds;
  \<open>sint\<close> reads its value.
\<close>

type_synonym apr_interval_time_t = "64 word"

text \<open>
  The event constants come from headers that are not part of the sources
  (\<open>apr_poll.h\<close> for the portable ones, the system's \<open>poll.h\<close> for the native ones), so
  they are parameters of the model: a record holding the twelve values. The record also
  holds what the code takes from the system's headers for \<open>select\<close>: the macro
  \<open>FD_SET\<close> with the constant \<open>FD_SETSIZE\<close>, and \<open>LONG_BIT\<close>, the width of \<open>long\<close>
  (the type of the two fields of \<open>struct timeval\<close> the code assigns with a cast).

  An \<open>fd_set\<close> is held as the set of the handles that \<open>FD_ISSET\<close> finds in it.
  \<open>FD_SET K h s\<close> is what the platform's macro leaves in the set \<open>s\<close> when it is
  applied to the handle \<open>h\<close>. \<open>FD_CLR\<close> is the removal of a handle from the set and
  \<open>FD_ISSET\<close> the membership test.
\<close>

type_synonym fd_set = "int set"

record poll_consts =
  APR_POLLIN :: apr_int16_t
  APR_POLLPRI :: apr_int16_t
  APR_POLLOUT :: apr_int16_t
  APR_POLLERR :: apr_int16_t
  APR_POLLHUP :: apr_int16_t
  APR_POLLNVAL :: apr_int16_t
  POLLIN :: apr_int16_t
  POLLPRI :: apr_int16_t
  POLLOUT :: apr_int16_t
  POLLERR :: apr_int16_t
  POLLHUP :: apr_int16_t
  POLLNVAL :: apr_int16_t
  FD_SET :: "int \<Rightarrow> fd_set \<Rightarrow> fd_set"
  FD_SETSIZE :: int
  LONG_BIT :: nat

text \<open>
  The values of APR's header and of Linux on a 64-bit machine, used for concrete runs:
  the constants of \<open>poll.h\<close>, a \<open>long\<close> of 64 bits, and an \<open>fd_set\<close> that is a vector
  of 1024 bits, one for each handle from 0 to 1023. \<open>FD_SET\<close> sets the bit of a handle
  within that range. For a handle outside the range the vector has no bit: C leaves the
  store undefined, the vector keeps its bits, and what the store does to the memory beside
  the vector is not part of the model. \<open>linux32_consts\<close> is the same with the \<open>long\<close> of
  32 bits of a 32-bit machine.
\<close>

definition linux_consts :: poll_consts where
  "linux_consts =
     \<lparr>APR_POLLIN = 0x001, APR_POLLPRI = 0x002, APR_POLLOUT = 0x004,
      APR_POLLERR = 0x010, APR_POLLHUP = 0x020, APR_POLLNVAL = 0x040,
      POLLIN = 0x001, POLLPRI = 0x002, POLLOUT = 0x004,
      POLLERR = 0x008, POLLHUP = 0x010, POLLNVAL = 0x020,
      FD_SET = (\<lambda>h s. if 0 \<le> h \<and> h < 1024 then insert h s else s),
      FD_SETSIZE = 1024, LONG_BIT = 64\<rparr>"


text \<open>
  The descriptor kind. Modelled from the spec: the enumeration \<open>apr_datatype_e\<close> is declared
  in \<open>apr_poll.h\<close>, which is not among the sources; the spec gives it as the closed variant
  Socket, File.
\<close>

datatype apr_datatype_e = APR_POLL_SOCKET | APR_POLL_FILE

text \<open>
  \<open>apr_pollfd_t\<close>. The union \<open>desc\<close> holds a pointer to a socket object or to a file
  object; both members share their storage, so \<open>desc.s\<close> and \<open>desc.f\<close> read the same
  pointer, modelled as an address. \<open>p\<close> is the pool pointer and \<open>client_data\<close> the caller's
  opaque value.
\<close>

record apr_pollfd_t =
  p :: nat
  desc_type :: apr_datatype_e
  reqevents :: apr_int16_t
  rtnevents :: apr_int16_t
  desc :: nat
  client_data :: nat

text \<open>
  The socket and file objects live outside the polling code (\<open>networkio.h\<close>,
  \<open>fileio.h\<close>); the model reads their fields through a heap from addresses to values.
\<close>

record heap =
  socketdes :: "nat \<Rightarrow> int"
  filedes :: "nat \<Rightarrow> int"
  is_pipe :: "nat \<Rightarrow> int"

text \<open>\<open>struct pollfd\<close> of the native event-list interface.\<close>

record pollfd =
  fd :: int
  events :: apr_int16_t
  revents :: apr_int16_t

text \<open>
  \<open>apr_status_t\<close>: the status codes the polling code returns, and \<open>errno\<close> passed through
  as it is.
\<close>

datatype apr_status_t =
  APR_SUCCESS | APR_TIMEUP | APR_ENOMEM | APR_EBADF | APR_NOTFOUND | Errno int

section \<open>The event-flag translator\<close>

definition get_event :: "poll_consts \<Rightarrow> apr_int16_t \<Rightarrow> apr_int16_t" where
  "get_event K event =
     (let rv = 0;
          rv = (if event AND APR_POLLIN K \<noteq> 0 then rv OR POLLIN K else rv);
          rv = (if event AND APR_POLLPRI K \<noteq> 0 then rv OR POLLPRI K else rv);
          rv = (if event AND APR_POLLOUT K \<noteq> 0 then rv OR POLLOUT K else rv);
          rv = (if event AND APR_POLLERR K \<noteq> 0 then rv OR POLLERR K else rv);
          rv = (if event AND APR_POLLHUP K \<noteq> 0 then rv OR POLLHUP K else rv);
          rv = (if event AND APR_POLLNVAL K \<noteq> 0 then rv OR POLLNVAL K else rv)
      in rv)"

definition get_revent :: "poll_consts \<Rightarrow> apr_int16_t \<Rightarrow> apr_int16_t" where
  "get_revent K event =
     (let rv = 0;
          rv = (if event AND POLLIN K \<noteq> 0 then rv OR APR_POLLIN K else rv);
          rv = (if event AND POLLPRI K \<noteq> 0 then rv OR APR_POLLPRI K else rv);
          rv = (if event AND POLLOUT K \<noteq> 0 then rv OR APR_POLLOUT K else rv);
          rv = (if event AND POLLERR K \<noteq> 0 then rv OR APR_POLLERR K else rv);
          rv = (if event AND POLLHUP K \<noteq> 0 then rv OR APR_POLLHUP K else rv);
          rv = (if event AND POLLNVAL K \<noteq> 0 then rv OR APR_POLLNVAL K else rv)
      in rv)"

text \<open>
  The six portable flags of the spec, and the bit masks that a set of them stands for on
  each side of the translator.
\<close>

datatype event_flag = Readable | Writable | Priority | Error | HangUp | Invalid

definition portable_bits :: "poll_consts \<Rightarrow> event_flag set \<Rightarrow> apr_int16_t" where
  "portable_bits K S =
     (if Readable \<in> S then APR_POLLIN K else 0) OR
     (if Priority \<in> S then APR_POLLPRI K else 0) OR
     (if Writable \<in> S then APR_POLLOUT K else 0) OR
     (if Error \<in> S then APR_POLLERR K else 0) OR
     (if HangUp \<in> S then APR_POLLHUP K else 0) OR
     (if Invalid \<in> S then APR_POLLNVAL K else 0)"

definition native_bits :: "poll_consts \<Rightarrow> event_flag set \<Rightarrow> apr_int16_t" where
  "native_bits K S =
     (if Readable \<in> S then POLLIN K else 0) OR
     (if Priority \<in> S then POLLPRI K else 0) OR
     (if Writable \<in> S then POLLOUT K else 0) OR
     (if Error \<in> S then POLLERR K else 0) OR
     (if HangUp \<in> S then POLLHUP K else 0) OR
     (if Invalid \<in> S then POLLNVAL K else 0)"

text \<open>
  What the headers guarantee about the constants: each flag has bits of its own, on both
  sides (the masks are nonzero and pairwise disjoint).
\<close>

fun disjoint_masks :: "apr_int16_t list \<Rightarrow> bool" where
  "disjoint_masks [] = True"
| "disjoint_masks (m # ms) =
     (m \<noteq> 0 \<and> list_all (\<lambda>n. m AND n = 0) ms \<and> disjoint_masks ms)"

definition consts_ok :: "poll_consts \<Rightarrow> bool" where
  "consts_ok K =
     (disjoint_masks [APR_POLLIN K, APR_POLLPRI K, APR_POLLOUT K,
                      APR_POLLERR K, APR_POLLHUP K, APR_POLLNVAL K] \<and>
      disjoint_masks [POLLIN K, POLLPRI K, POLLOUT K,
                      POLLERR K, POLLHUP K, POLLNVAL K])"

section \<open>The native wait primitives\<close>

text \<open>
  \<open>poll\<close> and \<open>select\<close> belong to the operating system. The model takes them as
  parameters: a function from the request the code builds to the reply of the system (the
  return value, what the call left in the caller's memory, and \<open>errno\<close>). Every embedded
  function also returns the list of native calls it made, with their arguments.

  The code hands its 64-bit timeout to parameters of a narrower type: \<open>poll\<close> takes an
  \<open>int\<close> of 32 bits, and the fields of \<open>struct timeval\<close> are assigned through a cast to
  \<open>long\<close>. \<open>narrow w x\<close> is the value that the conversion of \<open>x\<close> to a signed type of
  \<open>w\<close> bits gives on the two's-complement machines APR runs on: \<open>x\<close> itself when it
  fits, and \<open>x\<close> wrapped around modulo \<open>2 ^ w\<close> otherwise.
\<close>

definition narrow :: "nat \<Rightarrow> int \<Rightarrow> int" where
  "narrow w x = (x + 2 ^ (w - 1)) mod 2 ^ w - 2 ^ (w - 1)"

record poll_call =
  pc_fds :: "pollfd list"
  pc_timeout :: int

record poll_reply =
  poll_rv :: int
  poll_revents :: "nat \<Rightarrow> apr_int16_t"
  poll_errno :: int

type_synonym sys_poll = "poll_call \<Rightarrow> poll_reply"

record select_call =
  sc_pipe :: bool
  sc_nfds :: int
  sc_readfds :: fd_set
  sc_writefds :: fd_set
  sc_exceptfds :: fd_set
  sc_timeout :: "(int \<times> int) option"

record select_reply =
  select_rv :: int
  select_readfds :: fd_set
  select_writefds :: fd_set
  select_exceptfds :: fd_set
  select_errno :: int

type_synonym sys_select = "select_call \<Rightarrow> select_reply"

text \<open>
  The three builds of the bitmap backend: the plain one, the one with \<open>WIN32\<close> defined and
  the one with \<open>NETWARE\<close> defined.
\<close>

datatype os = Unix | Win32 | Netware

text \<open>
  Modelled from the spec: the macros \<open>apr_time_sec\<close> and \<open>apr_time_usec\<close> of
  \<open>apr_time.h\<close>, which is not among the sources. The spec says the bitmap backend keeps
  the caller's microsecond resolution, the timeout being split into seconds and
  microseconds; the split is C's truncating division by one million and its remainder.
\<close>

definition apr_time_sec :: "int \<Rightarrow> int" where
  "apr_time_sec t = t sdiv 1000000"

definition apr_time_usec :: "int \<Rightarrow> int" where
  "apr_time_usec t = t smod 1000000"

section \<open>The one-shot call, event-list backend\<close>

record apr_poll_result =
  status :: apr_status_t
  nsds :: "int option"
  aprset_out :: "apr_pollfd_t list"
  calls :: "poll_call list"

text \<open>
  \<open>aprset\<close> and \<open>num\<close> are one list. \<open>tmp\<close> is what the memory of the native array holds
  before the code fills it: the code writes the fields \<open>fd\<close> and \<open>events\<close> of every entry
  and leaves \<open>revents\<close> as it found it. Whether the array is the one on the stack or one
  from the pool (\<open>SMALL_POLLSET_LIMIT\<close>) makes no difference to the values.
\<close>

definition apr_poll_poll ::
  "poll_consts \<Rightarrow> heap \<Rightarrow> sys_poll \<Rightarrow> (nat \<Rightarrow> pollfd) \<Rightarrow> apr_pollfd_t list
     \<Rightarrow> apr_interval_time_t \<Rightarrow> apr_poll_result" where
  "apr_poll_poll K H sys tmp aprset timeout =
     (let num = length aprset;
          pollset = map (\<lambda>i.
              (tmp i)\<lparr>fd := (case desc_type (aprset ! i) of
                               APR_POLL_SOCKET \<Rightarrow> socketdes H (desc (aprset ! i))
                             | APR_POLL_FILE \<Rightarrow> filedes H (desc (aprset ! i))),
                      events := get_event K (reqevents (aprset ! i))\<rparr>) [0..<num];
          timeout = (if sint timeout > 0 then sint timeout sdiv 1000 else sint timeout);
          c = \<lparr>pc_fds = pollset, pc_timeout = narrow 32 timeout\<rparr>;
          r = sys c;
          pollset = map (\<lambda>i. (pollset ! i)\<lparr>revents := poll_revents r i\<rparr>) [0..<num];
          n = poll_rv r;
          aprset = map (\<lambda>i. (aprset ! i)\<lparr>rtnevents := get_revent K (revents (pollset ! i))\<rparr>)
                     [0..<num]
      in \<lparr>status = (if n < 0 then Errno (poll_errno r)
                     else if n = 0 then APR_TIMEUP else APR_SUCCESS),
          nsds = Some n, aprset_out = aprset, calls = [c]\<rparr>)"

section \<open>The one-shot call, bitmap backend\<close>

record select_build =
  b_readset :: fd_set
  b_writeset :: fd_set
  b_exceptset :: fd_set
  b_maxfd :: int
  b_is_pipe :: int

text \<open>
  The first loop of \<open>apr_poll\<close>: it returns \<open>APR_EBADF\<close> from inside the loop at a file
  descriptor when \<open>WIN32\<close> is defined.
\<close>

fun apr_poll_select_build ::
  "os \<Rightarrow> poll_consts \<Rightarrow> heap \<Rightarrow> apr_pollfd_t list \<Rightarrow> select_build
     \<Rightarrow> apr_status_t + select_build" where
  "apr_poll_select_build sy K H [] b = Inr b"
| "apr_poll_select_build sy K H (d # ds) b =
     (if desc_type d = APR_POLL_FILE \<and> sy = Win32 then Inl APR_EBADF
      else
        let h = (case desc_type d of
                   APR_POLL_SOCKET \<Rightarrow> socketdes H (desc d)
                 | APR_POLL_FILE \<Rightarrow> filedes H (desc d));
            b = (if desc_type d = APR_POLL_FILE \<and> sy = Netware
                 then b\<lparr>b_is_pipe := is_pipe H (desc d)\<rparr> else b);
            b = (if reqevents d AND APR_POLLIN K \<noteq> 0
                 then b\<lparr>b_readset := FD_SET K h (b_readset b)\<rparr> else b);
            b = (if reqevents d AND APR_POLLOUT K \<noteq> 0
                 then b\<lparr>b_writeset := FD_SET K h (b_writeset b)\<rparr> else b);
            b = (if reqevents d AND
                      (APR_POLLPRI K OR APR_POLLERR K OR APR_POLLHUP K OR APR_POLLNVAL K) \<noteq> 0
                 then b\<lparr>b_exceptset := FD_SET K h (b_exceptset b)\<rparr> else b);
            b = (if h > b_maxfd b then b\<lparr>b_maxfd := h\<rparr> else b)
        in apr_poll_select_build sy K H ds b)"

text \<open>
  The second loop of \<open>apr_poll\<close>, over the records and the sets \<open>select\<close> left. A return
  from inside the loop leaves the records after it as they were.
\<close>

fun apr_poll_select_results ::
  "os \<Rightarrow> poll_consts \<Rightarrow> heap \<Rightarrow> select_reply \<Rightarrow> apr_pollfd_t list
     \<Rightarrow> apr_status_t \<times> apr_pollfd_t list" where
  "apr_poll_select_results sy K H r [] = (APR_SUCCESS, [])"
| "apr_poll_select_results sy K H r (d # ds) =
     (if desc_type d \<noteq> APR_POLL_SOCKET \<and> sy = Win32 then (APR_EBADF, d # ds)
      else
        let h = (if desc_type d = APR_POLL_SOCKET then socketdes H (desc d)
                 else filedes H (desc d));
            d = d\<lparr>rtnevents := 0\<rparr>;
            d = (if h \<in> select_readfds r
                 then d\<lparr>rtnevents := rtnevents d OR APR_POLLIN K\<rparr> else d);
            d = (if h \<in> select_writefds r
                 then d\<lparr>rtnevents := rtnevents d OR APR_POLLOUT K\<rparr> else d);
            d = (if h \<in> select_exceptfds r
                 then d\<lparr>rtnevents := rtnevents d OR APR_POLLERR K\<rparr> else d);
            (st, ds') = apr_poll_select_results sy K H r ds
        in (st, d # ds'))"

record apr_select_result =
  s_status :: apr_status_t
  s_nsds :: "int option"
  s_aprset_out :: "apr_pollfd_t list"
  s_calls :: "select_call list"

definition apr_poll_select ::
  "os \<Rightarrow> poll_consts \<Rightarrow> heap \<Rightarrow> sys_select \<Rightarrow> apr_pollfd_t list \<Rightarrow> apr_interval_time_t
     \<Rightarrow> apr_select_result" where
  "apr_poll_select sy K H sys aprset timeout =
     (let tvptr = (if sint timeout < 0 then None
                   else Some (narrow (LONG_BIT K) (apr_time_sec (sint timeout)),
                              narrow (LONG_BIT K) (apr_time_usec (sint timeout))))
      in case apr_poll_select_build sy K H aprset
                \<lparr>b_readset = {}, b_writeset = {}, b_exceptset = {},
                 b_maxfd = - 1, b_is_pipe = 0\<rparr> of
           Inl e \<Rightarrow> \<lparr>s_status = e, s_nsds = None, s_aprset_out = aprset, s_calls = []\<rparr>
         | Inr b \<Rightarrow>
             let c = \<lparr>sc_pipe = (sy = Netware \<and> b_is_pipe b \<noteq> 0), sc_nfds = b_maxfd b + 1,
                      sc_readfds = b_readset b, sc_writefds = b_writeset b,
                      sc_exceptfds = b_exceptset b, sc_timeout = tvptr\<rparr>;
                 r = sys c;
                 n = select_rv r
             in if n = 0 then
                  \<lparr>s_status = APR_TIMEUP, s_nsds = Some n, s_aprset_out = aprset, s_calls = [c]\<rparr>
                else if n < 0 then
                  \<lparr>s_status = Errno (select_errno r), s_nsds = Some n,
                   s_aprset_out = aprset, s_calls = [c]\<rparr>
                else
                  let (st, aprset') = apr_poll_select_results sy K H r aprset
                  in \<lparr>s_status = st, s_nsds = Some n, s_aprset_out = aprset', s_calls = [c]\<rparr>)"

section \<open>The pollset\<close>

text \<open>
  \<open>struct apr_pollset_t\<close>. The fields common to the two builds come first; each build
  extends them with its native shadow state. \<open>nelts\<close> and \<open>nalloc\<close> are
  \<open>apr_uint32_t\<close>; the three arrays are lists of \<open>nalloc\<close> elements.
\<close>

record apr_pollset_t =
  nelts :: apr_uint32_t
  nalloc :: apr_uint32_t
  query_set :: "apr_pollfd_t list"
  result_set :: "apr_pollfd_t list"
  pool :: nat

record apr_pollset_poll_t = apr_pollset_t +
  pollset :: "pollfd list"

record apr_pollset_select_t = apr_pollset_t +
  readset :: fd_set
  writeset :: fd_set
  exceptset :: fd_set
  maxfd :: int

text \<open>
  \<open>apr_palloc\<close> returns memory whose contents are not set; the model takes the contents of
  the three fresh arrays as parameters, indexed by position.
\<close>

record arena =
  fresh_pollfd :: "nat \<Rightarrow> pollfd"
  fresh_query :: "nat \<Rightarrow> apr_pollfd_t"
  fresh_result :: "nat \<Rightarrow> apr_pollfd_t"

definition apr_pollset_create_poll ::
  "arena \<Rightarrow> apr_uint32_t \<Rightarrow> nat \<Rightarrow> apr_status_t \<times> apr_pollset_poll_t" where
  "apr_pollset_create_poll A size' pl =
     (APR_SUCCESS,
      \<lparr>nelts = 0, nalloc = size',
       query_set = map (fresh_query A) [0..<unat size'],
       result_set = map (fresh_result A) [0..<unat size'],
       pool = pl,
       pollset = map (fresh_pollfd A) [0..<unat size']\<rparr>)"

definition apr_pollset_create_select ::
  "arena \<Rightarrow> apr_uint32_t \<Rightarrow> nat \<Rightarrow> apr_status_t \<times> apr_pollset_select_t" where
  "apr_pollset_create_select A size' pl =
     (APR_SUCCESS,
      \<lparr>nelts = 0, nalloc = size',
       query_set = map (fresh_query A) [0..<unat size'],
       result_set = map (fresh_result A) [0..<unat size'],
       pool = pl,
       readset = {}, writeset = {}, exceptset = {}, maxfd = 0\<rparr>)"

definition apr_pollset_destroy :: "'a apr_pollset_t_scheme \<Rightarrow> apr_status_t \<times> 'a apr_pollset_t_scheme" where
  "apr_pollset_destroy ps = (APR_SUCCESS, ps)"

subsection \<open>Adding a descriptor\<close>

definition apr_pollset_add_poll ::
  "poll_consts \<Rightarrow> heap \<Rightarrow> apr_pollset_poll_t \<Rightarrow> apr_pollfd_t
     \<Rightarrow> apr_status_t \<times> apr_pollset_poll_t" where
  "apr_pollset_add_poll K H ps descriptor =
     (if nelts ps = nalloc ps then (APR_ENOMEM, ps)
      else
        let n = unat (nelts ps);
            ps = ps\<lparr>query_set := (query_set ps)[n := descriptor]\<rparr>;
            ps = (if desc_type descriptor = APR_POLL_SOCKET
                  then ps\<lparr>pollset := (pollset ps)
                          [n := (pollset ps ! n)\<lparr>fd := socketdes H (desc descriptor)\<rparr>]\<rparr>
                  else ps\<lparr>pollset := (pollset ps)
                          [n := (pollset ps ! n)\<lparr>fd := filedes H (desc descriptor)\<rparr>]\<rparr>);
            ps = ps\<lparr>pollset := (pollset ps)
                    [n := (pollset ps ! n)\<lparr>events := get_event K (reqevents descriptor)\<rparr>]\<rparr>;
            ps = ps\<lparr>nelts := nelts ps + 1\<rparr>
        in (APR_SUCCESS, ps))"

definition apr_pollset_add_select ::
  "os \<Rightarrow> poll_consts \<Rightarrow> heap \<Rightarrow> apr_pollset_select_t \<Rightarrow> apr_pollfd_t
     \<Rightarrow> apr_status_t \<times> apr_pollset_select_t" where
  "apr_pollset_add_select sy K H ps descriptor =
     (if nelts ps = nalloc ps then (APR_ENOMEM, ps)
      else
        let n = unat (nelts ps);
            ps = ps\<lparr>query_set := (query_set ps)[n := descriptor]\<rparr>
        in if desc_type descriptor \<noteq> APR_POLL_SOCKET \<and> sy = Win32 then (APR_EBADF, ps)
           else
             let h = (if desc_type descriptor = APR_POLL_SOCKET
                      then socketdes H (desc descriptor) else filedes H (desc descriptor));
                 ps = (if reqevents descriptor AND APR_POLLIN K \<noteq> 0
                       then ps\<lparr>readset := FD_SET K h (readset ps)\<rparr> else ps);
                 ps = (if reqevents descriptor AND APR_POLLOUT K \<noteq> 0
                       then ps\<lparr>writeset := FD_SET K h (writeset ps)\<rparr> else ps);
                 ps = (if reqevents descriptor AND
                            (APR_POLLPRI K OR APR_POLLERR K OR APR_POLLHUP K OR APR_POLLNVAL K)
                          \<noteq> 0
                       then ps\<lparr>exceptset := FD_SET K h (exceptset ps)\<rparr> else ps);
                 ps = (if h > maxfd ps then ps\<lparr>maxfd := h\<rparr> else ps);
                 ps = ps\<lparr>nelts := nelts ps + 1\<rparr>
             in (APR_SUCCESS, ps))"

subsection \<open>Removing a descriptor\<close>

text \<open>
  The inner loop of \<open>apr_pollset_remove\<close>, entered at the first entry that matches:
  \<open>for (i++; i < old_nelts; i++)\<close>. \<open>dst\<close> is set once, before the loop, and the loop
  body does not change it. The index \<open>i\<close> stays below \<open>old_nelts\<close>, a value of
  \<open>apr_uint32_t\<close>, so it is a natural number here.
\<close>

function remove_copies_poll ::
  "nat \<Rightarrow> nat \<Rightarrow> nat \<Rightarrow> nat \<Rightarrow> apr_pollset_poll_t \<Rightarrow> apr_pollset_poll_t" where
  "remove_copies_poll d dst old_nelts i ps =
     (if i < old_nelts then
        (if d = desc (query_set ps ! i)
         then remove_copies_poll d dst old_nelts (i + 1) (ps\<lparr>nelts := nelts ps - 1\<rparr>)
         else remove_copies_poll d dst old_nelts (i + 1)
                (ps\<lparr>pollset := (pollset ps)[dst := pollset ps ! i],
                    query_set := (query_set ps)[dst := query_set ps ! i]\<rparr>))
      else ps)"
  by pat_completeness auto
termination
  by (relation "measure (\<lambda>(d, dst, old_nelts, i, ps). old_nelts - i)") auto

declare remove_copies_poll.simps [simp del]

text \<open>The outer loop: \<open>for (i = 0; i < pollset->nelts; i++)\<close>, then \<open>APR_NOTFOUND\<close>.\<close>

function remove_find_poll ::
  "nat \<Rightarrow> nat \<Rightarrow> apr_pollset_poll_t \<Rightarrow> apr_status_t \<times> apr_pollset_poll_t" where
  "remove_find_poll d i ps =
     (if i < unat (nelts ps) then
        (if d = desc (query_set ps ! i)
         then (APR_SUCCESS,
               remove_copies_poll d i (unat (nelts ps)) (i + 1) (ps\<lparr>nelts := nelts ps - 1\<rparr>))
         else remove_find_poll d (i + 1) ps)
      else (APR_NOTFOUND, ps))"
  by pat_completeness auto
termination
  by (relation "measure (\<lambda>(d, i, ps). unat (nelts ps) - i)") auto

declare remove_find_poll.simps [simp del]

definition apr_pollset_remove_poll ::
  "apr_pollset_poll_t \<Rightarrow> apr_pollfd_t \<Rightarrow> apr_status_t \<times> apr_pollset_poll_t" where
  "apr_pollset_remove_poll ps descriptor = remove_find_poll (desc descriptor) 0 ps"

function remove_copies_select ::
  "nat \<Rightarrow> nat \<Rightarrow> nat \<Rightarrow> nat \<Rightarrow> apr_pollset_select_t \<Rightarrow> apr_pollset_select_t" where
  "remove_copies_select d dst old_nelts i ps =
     (if i < old_nelts then
        (if d = desc (query_set ps ! i)
         then remove_copies_select d dst old_nelts (i + 1) (ps\<lparr>nelts := nelts ps - 1\<rparr>)
         else remove_copies_select d dst old_nelts (i + 1)
                (ps\<lparr>query_set := (query_set ps)[dst := query_set ps ! i]\<rparr>))
      else ps)"
  by pat_completeness auto
termination
  by (relation "measure (\<lambda>(d, dst, old_nelts, i, ps). old_nelts - i)") auto

declare remove_copies_select.simps [simp del]

function remove_find_select ::
  "int \<Rightarrow> nat \<Rightarrow> nat \<Rightarrow> apr_pollset_select_t \<Rightarrow> apr_status_t \<times> apr_pollset_select_t" where
  "remove_find_select h d i ps =
     (if i < unat (nelts ps) then
        (if d = desc (query_set ps ! i)
         then
           let ps = remove_copies_select d i (unat (nelts ps)) (i + 1)
                      (ps\<lparr>nelts := nelts ps - 1\<rparr>);
               ps = ps\<lparr>readset := readset ps - {h}\<rparr>;
               ps = ps\<lparr>writeset := writeset ps - {h}\<rparr>;
               ps = ps\<lparr>exceptset := exceptset ps - {h}\<rparr>;
               ps = (if h = maxfd ps \<and> maxfd ps > 0 then ps\<lparr>maxfd := maxfd ps - 1\<rparr> else ps)
           in (APR_SUCCESS, ps)
         else remove_find_select h d (i + 1) ps)
      else (APR_NOTFOUND, ps))"
  by pat_completeness auto
termination
  by (relation "measure (\<lambda>(h, d, i, ps). unat (nelts ps) - i)") auto

declare remove_find_select.simps [simp del]

definition apr_pollset_remove_select ::
  "heap \<Rightarrow> apr_pollset_select_t \<Rightarrow> apr_pollfd_t \<Rightarrow> apr_status_t \<times> apr_pollset_select_t" where
  "apr_pollset_remove_select H ps descriptor =
     (let h = (if desc_type descriptor = APR_POLL_SOCKET
               then socketdes H (desc descriptor) else filedes H (desc descriptor))
      in remove_find_select h (desc descriptor) 0 ps)"

subsection \<open>Waiting on a pollset\<close>

text \<open>
  What \<open>apr_pollset_poll\<close> leaves behind: the status, the value stored in \<open>*num\<close> and
  the array stored in \<open>*descriptors\<close> (\<open>None\<close> where the code returns without the store),
  the final value of the local counter \<open>j\<close> where the result loop ran, the pollset and
  the native calls made.
\<close>

record ('s, 'c) wait_result =
  w_status :: apr_status_t
  w_num :: "int option"
  w_descriptors :: "apr_pollfd_t list option"
  w_filled :: "nat option"
  w_pollset :: 's
  w_calls :: "'c list"

text \<open>The two stores of the result loop's body, event-list backend.\<close>

definition poll_store :: "poll_consts \<Rightarrow> nat \<Rightarrow> nat \<Rightarrow> apr_pollset_poll_t \<Rightarrow> apr_pollset_poll_t" where
  "poll_store K i j ps =
     (let ps = ps\<lparr>result_set := (result_set ps)[j := query_set ps ! i]\<rparr>;
          ps = ps\<lparr>result_set := (result_set ps)
                  [j := (result_set ps ! j)
                          \<lparr>rtnevents := get_revent K (revents (pollset ps ! i))\<rparr>]\<rparr>
      in ps)"

function poll_collect ::
  "poll_consts \<Rightarrow> nat \<Rightarrow> nat \<Rightarrow> apr_pollset_poll_t \<Rightarrow> nat \<times> apr_pollset_poll_t" where
  "poll_collect K i j ps =
     (if i < unat (nelts ps) then
        (if revents (pollset ps ! i) \<noteq> 0
         then poll_collect K (i + 1) (j + 1) (poll_store K i j ps)
         else poll_collect K (i + 1) j ps)
      else (j, ps))"
  by pat_completeness auto
termination
  by (relation "measure (\<lambda>(K, i, j, ps). unat (nelts ps) - i)")
     (auto simp: poll_store_def Let_def)

declare poll_collect.simps [simp del]

definition apr_pollset_poll_poll ::
  "poll_consts \<Rightarrow> sys_poll \<Rightarrow> apr_pollset_poll_t \<Rightarrow> apr_interval_time_t
     \<Rightarrow> (apr_pollset_poll_t, poll_call) wait_result" where
  "apr_pollset_poll_poll K sys ps timeout =
     (let timeout = (if sint timeout > 0 then sint timeout sdiv 1000 else sint timeout);
          n = unat (nelts ps);
          c = \<lparr>pc_fds = take n (pollset ps), pc_timeout = narrow 32 timeout\<rparr>;
          r = sys c;
          ps = ps\<lparr>pollset := map (\<lambda>i. if i < n
                                       then (pollset ps ! i)\<lparr>revents := poll_revents r i\<rparr>
                                       else pollset ps ! i)
                                [0..<length (pollset ps)]\<rparr>;
          rv = poll_rv r
      in if rv < 0 then
           \<lparr>w_status = Errno (poll_errno r), w_num = Some rv, w_descriptors = None,
            w_filled = None, w_pollset = ps, w_calls = [c]\<rparr>
         else if rv = 0 then
           \<lparr>w_status = APR_TIMEUP, w_num = Some rv, w_descriptors = None,
            w_filled = None, w_pollset = ps, w_calls = [c]\<rparr>
         else
           let (j, ps) = poll_collect K 0 0 ps
           in \<lparr>w_status = APR_SUCCESS, w_num = Some rv,
               w_descriptors = Some (result_set ps),
               w_filled = Some j, w_pollset = ps, w_calls = [c]\<rparr>)"

text \<open>The stores of the result loop's body, bitmap backend, for the handle \<open>h\<close>.\<close>

definition select_store ::
  "poll_consts \<Rightarrow> select_reply \<Rightarrow> int \<Rightarrow> nat \<Rightarrow> nat \<Rightarrow> apr_pollset_select_t
     \<Rightarrow> apr_pollset_select_t" where
  "select_store K r h i j ps =
     (let ps = ps\<lparr>result_set := (result_set ps)[j := query_set ps ! i]\<rparr>;
          ps = ps\<lparr>result_set := (result_set ps)[j := (result_set ps ! j)\<lparr>rtnevents := 0\<rparr>]\<rparr>;
          ps = (if h \<in> select_readfds r
                then ps\<lparr>result_set := (result_set ps)
                        [j := (result_set ps ! j)
                                \<lparr>rtnevents := rtnevents (result_set ps ! j) OR APR_POLLIN K\<rparr>]\<rparr>
                else ps);
          ps = (if h \<in> select_writefds r
                then ps\<lparr>result_set := (result_set ps)
                        [j := (result_set ps ! j)
                                \<lparr>rtnevents := rtnevents (result_set ps ! j) OR APR_POLLOUT K\<rparr>]\<rparr>
                else ps);
          ps = (if h \<in> select_exceptfds r
                then ps\<lparr>result_set := (result_set ps)
                        [j := (result_set ps ! j)
                                \<lparr>rtnevents := rtnevents (result_set ps ! j) OR APR_POLLERR K\<rparr>]\<rparr>
                else ps)
      in ps)"

text \<open>
  The native handle of a record, as the code reads it wherever no build rejects files:
  \<open>desc.s->socketdes\<close> for a socket, \<open>desc.f->filedes\<close> otherwise.
\<close>

definition handle_of :: "heap \<Rightarrow> apr_pollfd_t \<Rightarrow> int" where
  "handle_of H d =
     (if desc_type d = APR_POLL_SOCKET then socketdes H (desc d) else filedes H (desc d))"

function select_collect ::
  "os \<Rightarrow> poll_consts \<Rightarrow> heap \<Rightarrow> select_reply \<Rightarrow> nat \<Rightarrow> nat \<Rightarrow> apr_pollset_select_t
     \<Rightarrow> apr_status_t \<times> nat \<times> apr_pollset_select_t" where
  "select_collect sy K H r i j ps =
     (if i < unat (nelts ps) then
        (if desc_type (query_set ps ! i) \<noteq> APR_POLL_SOCKET \<and> sy = Win32
         then (APR_EBADF, j, ps)
         else if handle_of H (query_set ps ! i) \<in> select_readfds r \<or>
                 handle_of H (query_set ps ! i) \<in> select_writefds r \<or>
                 handle_of H (query_set ps ! i) \<in> select_exceptfds r
         then select_collect sy K H r (i + 1) (j + 1)
                (select_store K r (handle_of H (query_set ps ! i)) i j ps)
         else select_collect sy K H r (i + 1) j ps)
      else (APR_SUCCESS, j, ps))"
  by pat_completeness auto
termination
  by (relation "measure (\<lambda>(sy, K, H, r, i, j, ps). unat (nelts ps) - i)")
     (auto simp: select_store_def Let_def)

declare select_collect.simps [simp del]

definition apr_pollset_poll_select ::
  "os \<Rightarrow> poll_consts \<Rightarrow> heap \<Rightarrow> sys_select \<Rightarrow> apr_pollset_select_t
     \<Rightarrow> apr_interval_time_t \<Rightarrow> (apr_pollset_select_t, select_call) wait_result" where
  "apr_pollset_poll_select sy K H sys ps timeout =
     (let tvptr = (if sint timeout < 0 then None
                   else Some (narrow (LONG_BIT K) (apr_time_sec (sint timeout)),
                              narrow (LONG_BIT K) (apr_time_usec (sint timeout))));
          c = \<lparr>sc_pipe = False, sc_nfds = maxfd ps + 1,
               sc_readfds = readset ps, sc_writefds = writeset ps,
               sc_exceptfds = exceptset ps, sc_timeout = tvptr\<rparr>;
          r = sys c;
          rv = select_rv r
      in if rv < 0 then
           \<lparr>w_status = Errno (select_errno r), w_num = Some rv, w_descriptors = None,
            w_filled = None, w_pollset = ps, w_calls = [c]\<rparr>
         else if rv = 0 then
           \<lparr>w_status = APR_TIMEUP, w_num = Some rv, w_descriptors = None,
            w_filled = None, w_pollset = ps, w_calls = [c]\<rparr>
         else
           let (st, j, ps) = select_collect sy K H r 0 0 ps
           in \<lparr>w_status = st, w_num = Some rv, w_descriptors = None,
               w_filled = Some j, w_pollset = ps, w_calls = [c]\<rparr>)"

section \<open>Notions used to state the properties\<close>

text \<open>The registry: the first \<open>nelts\<close> entries of \<open>query_set\<close>.\<close>

definition registered :: "'a apr_pollset_t_scheme \<Rightarrow> apr_pollfd_t list" where
  "registered ps = take (unat (nelts ps)) (query_set ps)"

text \<open>
  The shape \<open>apr_pollset_create\<close> gives a pollset: the arrays have \<open>nalloc\<close> elements and
  the count is within the capacity.
\<close>

definition pollset_ok :: "'a apr_pollset_t_scheme \<Rightarrow> bool" where
  "pollset_ok ps =
     (nelts ps \<le> nalloc ps \<and>
      length (query_set ps) = unat (nalloc ps) \<and>
      length (result_set ps) = unat (nalloc ps))"

definition pollset_poll_ok :: "apr_pollset_poll_t \<Rightarrow> bool" where
  "pollset_poll_ok ps = (pollset_ok ps \<and> length (pollset ps) = unat (nalloc ps))"

text \<open>
  The status after a native wait that returned \<open>rv\<close> and left \<open>e\<close> in \<open>errno\<close>.
\<close>

definition wait_status :: "int \<Rightarrow> int \<Rightarrow> apr_status_t" where
  "wait_status rv e =
     (if rv < 0 then Errno e else if rv = 0 then APR_TIMEUP else APR_SUCCESS)"

text \<open>
  The ready descriptors of a reply of \<open>poll\<close>: the entries, among the first \<open>n\<close> of
  the native array, that it left with a nonzero \<open>revents\<close>. Their number is what \<open>poll\<close>
  returns when it returns a positive value.
\<close>

definition poll_ready :: "poll_reply \<Rightarrow> nat \<Rightarrow> nat" where
  "poll_ready r n = length (filter (\<lambda>k. poll_revents r k \<noteq> 0) [0..<n])"


text \<open>The build with \<open>WIN32\<close> meets a file descriptor among the records.\<close>

definition file_rejected :: "os \<Rightarrow> apr_pollfd_t list \<Rightarrow> bool" where
  "file_rejected sy ds = (sy = Win32 \<and> list_ex (\<lambda>d. desc_type d = APR_POLL_FILE) ds)"

text \<open>The portable flags the bitmap backend reports for a handle, from the three sets.\<close>

definition bitmap_events :: "poll_consts \<Rightarrow> select_reply \<Rightarrow> int \<Rightarrow> apr_int16_t" where
  "bitmap_events K r h =
     (if h \<in> select_readfds r then APR_POLLIN K else 0) OR
     (if h \<in> select_writefds r then APR_POLLOUT K else 0) OR
     (if h \<in> select_exceptfds r then APR_POLLERR K else 0)"

text \<open>
  The pollsets a caller can have: made by \<open>apr_pollset_create\<close> and passed through
  any number of adds, removes and waits, successful or not.
\<close>

inductive built_poll :: "poll_consts \<Rightarrow> heap \<Rightarrow> apr_pollset_poll_t \<Rightarrow> bool"
  for K :: poll_consts and H :: heap where
  created_poll: "built_poll K H (snd (apr_pollset_create_poll A n pl))"
| added_poll: "built_poll K H ps \<Longrightarrow> built_poll K H (snd (apr_pollset_add_poll K H ps d))"
| removed_poll: "built_poll K H ps \<Longrightarrow> built_poll K H (snd (apr_pollset_remove_poll ps d))"
| waited_poll:
    "built_poll K H ps \<Longrightarrow> built_poll K H (w_pollset (apr_pollset_poll_poll K sysp ps t))"

inductive built_select :: "os \<Rightarrow> poll_consts \<Rightarrow> heap \<Rightarrow> apr_pollset_select_t \<Rightarrow> bool"
  for sy :: os and K :: poll_consts and H :: heap where
  created_select: "built_select sy K H (snd (apr_pollset_create_select A n pl))"
| added_select:
    "built_select sy K H ps \<Longrightarrow> built_select sy K H (snd (apr_pollset_add_select sy K H ps d))"
| removed_select:
    "built_select sy K H ps \<Longrightarrow> built_select sy K H (snd (apr_pollset_remove_select H ps d))"
| waited_select:
    "built_select sy K H ps \<Longrightarrow>
     built_select sy K H (w_pollset (apr_pollset_poll_select sy K H syss ps t))"

subsection \<open>Concrete values for the runs\<close>

definition heap0 :: heap where
  "heap0 = \<lparr>socketdes = int, filedes = int, is_pipe = (\<lambda>a. 0)\<rparr>"

definition sock :: "nat \<Rightarrow> apr_int16_t \<Rightarrow> apr_pollfd_t" where
  "sock a ev = \<lparr>p = 0, desc_type = APR_POLL_SOCKET, reqevents = ev, rtnevents = 0,
               desc = a, client_data = a\<rparr>"

definition file' :: "nat \<Rightarrow> apr_int16_t \<Rightarrow> apr_pollfd_t" where
  "file' a ev = \<lparr>p = 0, desc_type = APR_POLL_FILE, reqevents = ev, rtnevents = 0,
                desc = a, client_data = a\<rparr>"

definition arena0 :: arena where
  "arena0 = \<lparr>fresh_pollfd = (\<lambda>i. \<lparr>fd = 0, events = 0, revents = 0\<rparr>),
             fresh_query = (\<lambda>i. sock 0 0), fresh_result = (\<lambda>i. sock 0 0)\<rparr>"

text \<open>Native primitives that give one fixed reply, whatever the request.\<close>

definition poll_answer :: "int \<Rightarrow> apr_int16_t list \<Rightarrow> int \<Rightarrow> sys_poll" where
  "poll_answer rv revs e =
     (\<lambda>c. \<lparr>poll_rv = rv, poll_revents = (\<lambda>i. if i < length revs then revs ! i else 0),
           poll_errno = e\<rparr>)"

definition select_answer :: "int \<Rightarrow> fd_set \<Rightarrow> fd_set \<Rightarrow> fd_set \<Rightarrow> int \<Rightarrow> sys_select" where
  "select_answer rv rs ws es e =
     (\<lambda>c. \<lparr>select_rv = rv, select_readfds = rs, select_writefds = ws,
           select_exceptfds = es, select_errno = e\<rparr>)"

text \<open>A pollset of the given capacity with the records added in order.\<close>

definition adds_poll :: "apr_uint32_t \<Rightarrow> apr_pollfd_t list \<Rightarrow> apr_pollset_poll_t" where
  "adds_poll n ds =
     fold (\<lambda>d ps. snd (apr_pollset_add_poll linux_consts heap0 ps d)) ds
       (snd (apr_pollset_create_poll arena0 n 0))"

definition adds_select :: "os \<Rightarrow> apr_uint32_t \<Rightarrow> apr_pollfd_t list \<Rightarrow> apr_pollset_select_t" where
  "adds_select sy n ds =
     fold (\<lambda>d ps. snd (apr_pollset_add_select sy linux_consts heap0 ps d)) ds
       (snd (apr_pollset_create_select arena0 n 0))"

text \<open>The test of the bitmap result loop: the handle of the record is in one of the sets.\<close>

definition select_ready :: "heap \<Rightarrow> select_reply \<Rightarrow> apr_pollfd_t \<Rightarrow> bool" where
  "select_ready H r d =
     (handle_of H d \<in> select_readfds r \<or>
      handle_of H d \<in> select_writefds r \<or>
      handle_of H d \<in> select_exceptfds r)"

section \<open>Properties\<close>

subsection \<open>The translator\<close>

lemma if_and_mask: "(if c then (x::apr_int16_t) else 0) AND m = (if c then x AND m else 0)"
  by simp

lemma pick_mask:
  assumes "disjoint_masks [a, b, c, d, e, f]"
  shows "((if A then a else 0) OR (if B then b else 0) OR (if C then c else 0) OR
          (if D then d else 0) OR (if E then e else 0) OR (if F then f else 0)) AND a \<noteq> 0
         \<longleftrightarrow> A"
    and "((if A then a else 0) OR (if B then b else 0) OR (if C then c else 0) OR
          (if D then d else 0) OR (if E then e else 0) OR (if F then f else 0)) AND b \<noteq> 0
         \<longleftrightarrow> B"
    and "((if A then a else 0) OR (if B then b else 0) OR (if C then c else 0) OR
          (if D then d else 0) OR (if E then e else 0) OR (if F then f else 0)) AND c \<noteq> 0
         \<longleftrightarrow> C"
    and "((if A then a else 0) OR (if B then b else 0) OR (if C then c else 0) OR
          (if D then d else 0) OR (if E then e else 0) OR (if F then f else 0)) AND d \<noteq> 0
         \<longleftrightarrow> D"
    and "((if A then a else 0) OR (if B then b else 0) OR (if C then c else 0) OR
          (if D then d else 0) OR (if E then e else 0) OR (if F then f else 0)) AND e \<noteq> 0
         \<longleftrightarrow> E"
    and "((if A then a else 0) OR (if B then b else 0) OR (if C then c else 0) OR
          (if D then d else 0) OR (if E then e else 0) OR (if F then f else 0)) AND f \<noteq> 0
         \<longleftrightarrow> F"
proof -
  have nz: "a \<noteq> 0" "b \<noteq> 0" "c \<noteq> 0" "d \<noteq> 0" "e \<noteq> 0" "f \<noteq> 0"
    using assms by simp_all
  have dj: "a AND b = 0" "a AND c = 0" "a AND d = 0" "a AND e = 0" "a AND f = 0"
    "b AND c = 0" "b AND d = 0" "b AND e = 0" "b AND f = 0"
    "c AND d = 0" "c AND e = 0" "c AND f = 0"
    "d AND e = 0" "d AND f = 0" "e AND f = 0"
    using assms by simp_all
  have dj': "b AND a = 0" "c AND a = 0" "d AND a = 0" "e AND a = 0" "f AND a = 0"
    "c AND b = 0" "d AND b = 0" "e AND b = 0" "f AND b = 0"
    "d AND c = 0" "e AND c = 0" "f AND c = 0"
    "e AND d = 0" "f AND d = 0" "f AND e = 0"
    using dj by (simp_all add: and.commute)
  note rules = bit.conj_disj_distrib2 if_and_mask dj dj' and.idem if_cancel
    or.right_neutral or.left_neutral
  show "((if A then a else 0) OR (if B then b else 0) OR (if C then c else 0) OR
          (if D then d else 0) OR (if E then e else 0) OR (if F then f else 0)) AND a \<noteq> 0
         \<longleftrightarrow> A"
    by (simp only: rules) (simp add: nz)
  show "((if A then a else 0) OR (if B then b else 0) OR (if C then c else 0) OR
          (if D then d else 0) OR (if E then e else 0) OR (if F then f else 0)) AND b \<noteq> 0
         \<longleftrightarrow> B"
    by (simp only: rules) (simp add: nz)
  show "((if A then a else 0) OR (if B then b else 0) OR (if C then c else 0) OR
          (if D then d else 0) OR (if E then e else 0) OR (if F then f else 0)) AND c \<noteq> 0
         \<longleftrightarrow> C"
    by (simp only: rules) (simp add: nz)
  show "((if A then a else 0) OR (if B then b else 0) OR (if C then c else 0) OR
          (if D then d else 0) OR (if E then e else 0) OR (if F then f else 0)) AND d \<noteq> 0
         \<longleftrightarrow> D"
    by (simp only: rules) (simp add: nz)
  show "((if A then a else 0) OR (if B then b else 0) OR (if C then c else 0) OR
          (if D then d else 0) OR (if E then e else 0) OR (if F then f else 0)) AND e \<noteq> 0
         \<longleftrightarrow> E"
    by (simp only: rules) (simp add: nz)
  show "((if A then a else 0) OR (if B then b else 0) OR (if C then c else 0) OR
          (if D then d else 0) OR (if E then e else 0) OR (if F then f else 0)) AND f \<noteq> 0
         \<longleftrightarrow> F"
    by (simp only: rules) (simp add: nz)
qed

lemma get_event_portable_bits:
  assumes "consts_ok K"
  shows "get_event K (portable_bits K S) = native_bits K S"
proof -
  have d: "disjoint_masks [APR_POLLIN K, APR_POLLPRI K, APR_POLLOUT K,
                           APR_POLLERR K, APR_POLLHUP K, APR_POLLNVAL K]"
    using assms by (simp add: consts_ok_def)
  show ?thesis
    unfolding get_event_def portable_bits_def native_bits_def Let_def pick_mask [OF d]
    by (simp add: ac_simps)
qed

lemma get_revent_native_bits:
  assumes "consts_ok K"
  shows "get_revent K (native_bits K S) = portable_bits K S"
proof -
  have d: "disjoint_masks [POLLIN K, POLLPRI K, POLLOUT K,
                           POLLERR K, POLLHUP K, POLLNVAL K]"
    using assms by (simp add: consts_ok_def)
  show ?thesis
    unfolding get_revent_def portable_bits_def native_bits_def Let_def pick_mask [OF d]
    by (simp add: ac_simps)
qed

lemma consts_ok_linux: "consts_ok linux_consts"
  by (simp add: consts_ok_def linux_consts_def)

lemma and_into: "m AND a = a \<Longrightarrow> (n AND m) AND a = n AND (a::apr_int16_t)"
  by (simp add: and.assoc)

lemma all_and:
  "(a OR b OR c OR d OR e OR f) AND a = (a::apr_int16_t)"
  "(a OR b OR c OR d OR e OR f) AND b = b"
  "(a OR b OR c OR d OR e OR f) AND c = c"
  "(a OR b OR c OR d OR e OR f) AND d = d"
  "(a OR b OR c OR d OR e OR f) AND e = e"
  "(a OR b OR c OR d OR e OR f) AND f = f"
  by (simp_all add: bit_eq_iff bit_and_iff bit_or_iff) blast+

lemma get_revent_drops: "get_revent K n = get_revent K (n AND native_bits K UNIV)"
  unfolding get_revent_def native_bits_def Let_def
  by (simp only: UNIV_I if_True and_into [OF all_and(1)] and_into [OF all_and(2)]
        and_into [OF all_and(3)] and_into [OF all_and(4)] and_into [OF all_and(5)]
        and_into [OF all_and(6)])

lemma or_step:
  "r OR m = m \<Longrightarrow> a OR m = m \<Longrightarrow> (if c then r OR a else r) OR m = (m::apr_int16_t)"
  by (simp add: or.assoc)

lemma or_all:
  "a OR (a OR b OR c OR d OR e OR f) = (a OR b OR c OR d OR e OR f :: apr_int16_t)"
  "b OR (a OR b OR c OR d OR e OR f) = (a OR b OR c OR d OR e OR f)"
  "c OR (a OR b OR c OR d OR e OR f) = (a OR b OR c OR d OR e OR f)"
  "d OR (a OR b OR c OR d OR e OR f) = (a OR b OR c OR d OR e OR f)"
  "e OR (a OR b OR c OR d OR e OR f) = (a OR b OR c OR d OR e OR f)"
  "f OR (a OR b OR c OR d OR e OR f) = (a OR b OR c OR d OR e OR f)"
  by (simp_all add: bit_eq_iff bit_or_iff) blast+

lemma get_revent_within: "get_revent K n OR portable_bits K UNIV = portable_bits K UNIV"
  unfolding get_revent_def portable_bits_def Let_def
  by (simp only: UNIV_I if_True) (intro or_step or_all or.left_neutral)

text \<open>
  Claim C5. For every set \<open>S\<close> of the six portable flags, translating the request and
  translating the result back gives \<open>S\<close> again, and the same holds the other way round
  for every set of the six native flags: on the six flags the two directions are inverse
  to each other. The result direction reads nothing but the six native masks (bits outside
  them are dropped) and produces nothing but portable flag bits. The constants are those
  of the platform's headers, each flag with bits of its own.
\<close>

theorem flag_round_trip:
  "consts_ok K \<Longrightarrow>
     get_revent K (get_event K (portable_bits K S)) = portable_bits K S \<and>
     get_event K (get_revent K (native_bits K S)) = native_bits K S \<and>
     get_revent K n = get_revent K (n AND native_bits K UNIV) \<and>
     get_revent K n OR portable_bits K UNIV = portable_bits K UNIV"
  using get_revent_drops [of K n] get_revent_within [of K n]
  by (simp add: get_event_portable_bits get_revent_native_bits)

theorem flag_round_trip_witness:
  "consts_ok linux_consts \<and>
   portable_bits linux_consts {Readable, HangUp} = 0x21 \<and>
   get_revent linux_consts (get_event linux_consts 0x21) = 0x21 \<and>
   native_bits linux_consts {Writable, Invalid} = 0x24 \<and>
   get_event linux_consts (get_revent linux_consts 0x24) = 0x24 \<and>
   get_revent linux_consts 0x4009 = get_revent linux_consts (0x4009 AND 0x3f)"
proof -
  have pb: "portable_bits linux_consts {Readable, HangUp} = 0x21"
    by (simp add: portable_bits_def linux_consts_def)
  have nb: "native_bits linux_consts {Writable, Invalid} = 0x24"
    by (simp add: native_bits_def linux_consts_def)
  have nu: "native_bits linux_consts UNIV = 0x3f"
    by (simp add: native_bits_def linux_consts_def)
  show ?thesis
    using flag_round_trip [of linux_consts "{Readable, HangUp}" "0x4009"]
      flag_round_trip [of linux_consts "{Writable, Invalid}" "0x4009"]
    by (simp only: pb nb nu consts_ok_linux simp_thms)
qed

subsection \<open>The result loops of the pollset\<close>


lemma not_socket: "(k \<noteq> APR_POLL_SOCKET) = (k = APR_POLL_FILE)"
  by (cases k) simp_all

lemma select_store_fields:
  "nelts (select_store K r h i j ps) = nelts ps"
  "nalloc (select_store K r h i j ps) = nalloc ps"
  "query_set (select_store K r h i j ps) = query_set ps"
  "readset (select_store K r h i j ps) = readset ps"
  "writeset (select_store K r h i j ps) = writeset ps"
  "exceptset (select_store K r h i j ps) = exceptset ps"
  "maxfd (select_store K r h i j ps) = maxfd ps"
  "length (result_set (select_store K r h i j ps)) = length (result_set ps)"
  by (simp_all add: select_store_def Let_def)

lemma select_store_result:
  "j < length (result_set ps) \<Longrightarrow>
   result_set (select_store K r h i j ps) =
     (result_set ps)[j := (query_set ps ! i)\<lparr>rtnevents := bitmap_events K r h\<rparr>]"
  by (simp add: select_store_def Let_def bitmap_events_def or.assoc)

lemma poll_store_fields:
  "nelts (poll_store K i j ps) = nelts ps"
  "nalloc (poll_store K i j ps) = nalloc ps"
  "query_set (poll_store K i j ps) = query_set ps"
  "pollset (poll_store K i j ps) = pollset ps"
  "length (result_set (poll_store K i j ps)) = length (result_set ps)"
  by (simp_all add: poll_store_def Let_def)

lemma poll_store_result:
  "j < length (result_set ps) \<Longrightarrow>
   result_set (poll_store K i j ps) =
     (result_set ps)[j := (query_set ps ! i)\<lparr>rtnevents := get_revent K (revents (pollset ps ! i))\<rparr>]"
  by (simp add: poll_store_def Let_def)

lemma poll_collect_stop:
  "\<not> i < unat (nelts ps) \<Longrightarrow> poll_collect K i j ps = (j, ps)"
  by (subst poll_collect.simps) simp

lemma poll_collect_take:
  "i < unat (nelts ps) \<Longrightarrow> revents (pollset ps ! i) \<noteq> 0 \<Longrightarrow>
   poll_collect K i j ps = poll_collect K (Suc i) (Suc j) (poll_store K i j ps)"
  by (subst poll_collect.simps) simp

lemma poll_collect_skip:
  "i < unat (nelts ps) \<Longrightarrow> revents (pollset ps ! i) = 0 \<Longrightarrow>
   poll_collect K i j ps = poll_collect K (Suc i) j ps"
  by (subst poll_collect.simps) simp

lemma poll_collect_fields:
  "nelts (snd (poll_collect K i j ps)) = nelts ps \<and>
   nalloc (snd (poll_collect K i j ps)) = nalloc ps \<and>
   query_set (snd (poll_collect K i j ps)) = query_set ps \<and>
   pollset (snd (poll_collect K i j ps)) = pollset ps \<and>
   length (result_set (snd (poll_collect K i j ps))) = length (result_set ps)"
proof (induction K i j ps rule: poll_collect.induct)
  case (1 K i j ps)
  show ?case
  proof (cases "i < unat (nelts ps)")
    case False
    then show ?thesis by (simp add: poll_collect_stop)
  next
    case True
    show ?thesis
    proof (cases "revents (pollset ps ! i) = 0")
      case True
      with \<open>i < unat (nelts ps)\<close> "1.IH"(2) show ?thesis
        by (simp add: poll_collect_skip)
    next
      case False
      with \<open>i < unat (nelts ps)\<close> "1.IH"(1) show ?thesis
        by (simp add: poll_collect_take poll_store_fields)
    qed
  qed
qed

lemma take_Suc_update:
  "j < length xs \<Longrightarrow> take (Suc j) (xs[j := e]) = take j xs @ [e]"
  by (simp add: take_Suc_conv_app_nth)

lemma poll_collect_result:
  assumes "poll_collect K i j ps = (j', ps')"
    and "j \<le> i" "unat (nelts ps) \<le> length (result_set ps)"
  shows "j' = j + length (filter (\<lambda>k. revents (pollset ps ! k) \<noteq> 0) [i..<unat (nelts ps)]) \<and>
         take j' (result_set ps') =
           take j (result_set ps) @
           map (\<lambda>k. (query_set ps ! k)\<lparr>rtnevents := get_revent K (revents (pollset ps ! k))\<rparr>)
             (filter (\<lambda>k. revents (pollset ps ! k) \<noteq> 0) [i..<unat (nelts ps)])"
  using assms
proof (induction K i j ps arbitrary: j' ps' rule: poll_collect.induct)
  case (1 K i j ps)
  show ?case
  proof (cases "i < unat (nelts ps)")
    case False
    with "1.prems"(1) show ?thesis by (simp add: poll_collect_stop)
  next
    case True
    note lt = True
    have up: "[i..<unat (nelts ps)] = i # [Suc i..<unat (nelts ps)]"
      using lt by (simp add: upt_conv_Cons)
    show ?thesis
    proof (cases "revents (pollset ps ! i) = 0")
      case True
      have e: "poll_collect K (i + 1) j ps = (j', ps')"
        using "1.prems"(1) lt True by (simp add: poll_collect_skip)
      have "j \<le> i + 1" using "1.prems"(2) by simp
      from "1.IH"(2) [OF lt _ e this "1.prems"(3)] True show ?thesis
        by (auto simp: up)
    next
      case False
      have e: "poll_collect K (i + 1) (j + 1) (poll_store K i j ps) = (j', ps')"
        using "1.prems"(1) lt False by (simp add: poll_collect_take)
      have a: "j + 1 \<le> i + 1" using "1.prems"(2) by simp
      have jl: "j < length (result_set ps)" using "1.prems" lt by simp
      have b: "unat (nelts (poll_store K i j ps)) \<le> length (result_set (poll_store K i j ps))"
        using "1.prems"(3) by (simp add: poll_store_fields)
      from "1.IH"(1) [OF lt False e a b] False show ?thesis
        by (auto simp: up poll_store_fields poll_store_result [OF jl] take_Suc_update [OF jl])
    qed
  qed
qed

lemma select_collect_stop:
  "\<not> i < unat (nelts ps) \<Longrightarrow> select_collect sy K H r i j ps = (APR_SUCCESS, j, ps)"
  by (subst select_collect.simps) simp

lemma select_collect_bad:
  "i < unat (nelts ps) \<Longrightarrow> desc_type (query_set ps ! i) \<noteq> APR_POLL_SOCKET \<and> sy = Win32 \<Longrightarrow>
   select_collect sy K H r i j ps = (APR_EBADF, j, ps)"
  by (subst select_collect.simps) simp

lemma select_collect_take:
  "i < unat (nelts ps) \<Longrightarrow> \<not> (desc_type (query_set ps ! i) \<noteq> APR_POLL_SOCKET \<and> sy = Win32) \<Longrightarrow>
   select_ready H r (query_set ps ! i) \<Longrightarrow>
   select_collect sy K H r i j ps =
     select_collect sy K H r (Suc i) (Suc j)
       (select_store K r (handle_of H (query_set ps ! i)) i j ps)"
  by (subst select_collect.simps) (auto simp: select_ready_def)

lemma select_collect_skip:
  "i < unat (nelts ps) \<Longrightarrow> \<not> (desc_type (query_set ps ! i) \<noteq> APR_POLL_SOCKET \<and> sy = Win32) \<Longrightarrow>
   \<not> select_ready H r (query_set ps ! i) \<Longrightarrow>
   select_collect sy K H r i j ps = select_collect sy K H r (Suc i) j ps"
  by (subst select_collect.simps) (auto simp: select_ready_def)

lemma select_collect_fields:
  "nelts (snd (snd (select_collect sy K H r i j ps))) = nelts ps \<and>
   nalloc (snd (snd (select_collect sy K H r i j ps))) = nalloc ps \<and>
   query_set (snd (snd (select_collect sy K H r i j ps))) = query_set ps \<and>
   readset (snd (snd (select_collect sy K H r i j ps))) = readset ps \<and>
   writeset (snd (snd (select_collect sy K H r i j ps))) = writeset ps \<and>
   exceptset (snd (snd (select_collect sy K H r i j ps))) = exceptset ps \<and>
   maxfd (snd (snd (select_collect sy K H r i j ps))) = maxfd ps \<and>
   length (result_set (snd (snd (select_collect sy K H r i j ps)))) = length (result_set ps)"
proof (induction sy K H r i j ps rule: select_collect.induct)
  case (1 sy K H r i j ps)
  show ?case
  proof (cases "i < unat (nelts ps)")
    case False
    then show ?thesis by (simp add: select_collect_stop)
  next
    case True
    note lt = True
    show ?thesis
    proof (cases "desc_type (query_set ps ! i) \<noteq> APR_POLL_SOCKET \<and> sy = Win32")
      case True
      with lt show ?thesis by (simp add: select_collect_bad)
    next
      case False
      note ok = False
      show ?thesis
      proof (cases "select_ready H r (query_set ps ! i)")
        case True
        then have "handle_of H (query_set ps ! i) \<in> select_readfds r \<or>
                   handle_of H (query_set ps ! i) \<in> select_writefds r \<or>
                   handle_of H (query_set ps ! i) \<in> select_exceptfds r"
          by (simp add: select_ready_def)
        from "1.IH"(1) [OF lt ok this] show ?thesis
          by (simp add: select_collect_take [OF lt ok True] select_store_fields)
      next
        case False
        then have "\<not> (handle_of H (query_set ps ! i) \<in> select_readfds r \<or>
                   handle_of H (query_set ps ! i) \<in> select_writefds r \<or>
                   handle_of H (query_set ps ! i) \<in> select_exceptfds r)"
          by (simp add: select_ready_def)
        from "1.IH"(2) [OF lt ok this] show ?thesis
          by (simp add: select_collect_skip [OF lt ok False])
      qed
    qed
  qed
qed

lemma rejected_nth:
  assumes "\<not> file_rejected sy (take n qs)" "i < n" "n \<le> length qs"
  shows "\<not> (desc_type (qs ! i) \<noteq> APR_POLL_SOCKET \<and> sy = Win32)"
proof -
  have "take n qs ! i \<in> set (take n qs)"
    using assms(2,3) by (intro nth_mem) simp
  then have "qs ! i \<in> set (take n qs)"
    using assms(2) by simp
  then show ?thesis
    using assms(1) by (auto simp: file_rejected_def list_ex_iff not_socket)
qed

lemma select_collect_result:
  assumes "select_collect sy K H r i j ps = (st, j', ps')"
    and "j \<le> i" "unat (nelts ps) \<le> length (result_set ps)"
    and "unat (nelts ps) \<le> length (query_set ps)"
    and "\<not> file_rejected sy (registered ps)"
  shows "st = APR_SUCCESS \<and>
         j' = j + length (filter (\<lambda>k. select_ready H r (query_set ps ! k)) [i..<unat (nelts ps)]) \<and>
         take j' (result_set ps') =
           take j (result_set ps) @
           map (\<lambda>k. (query_set ps ! k)
                  \<lparr>rtnevents := bitmap_events K r (handle_of H (query_set ps ! k))\<rparr>)
             (filter (\<lambda>k. select_ready H r (query_set ps ! k)) [i..<unat (nelts ps)])"
  using assms
proof (induction sy K H r i j ps arbitrary: st j' ps' rule: select_collect.induct)
  case (1 sy K H r i j ps)
  show ?case
  proof (cases "i < unat (nelts ps)")
    case False
    with "1.prems"(1) show ?thesis by (simp add: select_collect_stop)
  next
    case True
    note lt = True
    have up: "[i..<unat (nelts ps)] = i # [Suc i..<unat (nelts ps)]"
      using lt by (simp add: upt_conv_Cons)
    have ok: "\<not> (desc_type (query_set ps ! i) \<noteq> APR_POLL_SOCKET \<and> sy = Win32)"
      using rejected_nth [OF "1.prems"(5) [unfolded registered_def] lt "1.prems"(4)] .
    show ?thesis
    proof (cases "select_ready H r (query_set ps ! i)")
      case False
      then have n: "\<not> (handle_of H (query_set ps ! i) \<in> select_readfds r \<or>
                   handle_of H (query_set ps ! i) \<in> select_writefds r \<or>
                   handle_of H (query_set ps ! i) \<in> select_exceptfds r)"
        by (simp add: select_ready_def)
      have e: "select_collect sy K H r (i + 1) j ps = (st, j', ps')"
        using "1.prems"(1) by (simp add: select_collect_skip [OF lt ok False])
      have "j \<le> i + 1" using "1.prems"(2) by simp
      from "1.IH"(2) [OF lt ok n e this "1.prems"(3,4,5)] False show ?thesis
        by (auto simp: up)
    next
      case True
      then have y: "handle_of H (query_set ps ! i) \<in> select_readfds r \<or>
                   handle_of H (query_set ps ! i) \<in> select_writefds r \<or>
                   handle_of H (query_set ps ! i) \<in> select_exceptfds r"
        by (simp add: select_ready_def)
      let ?ps = "select_store K r (handle_of H (query_set ps ! i)) i j ps"
      have e: "select_collect sy K H r (i + 1) (j + 1) ?ps = (st, j', ps')"
        using "1.prems"(1) by (simp add: select_collect_take [OF lt ok True])
      have a: "j + 1 \<le> i + 1" using "1.prems"(2) by simp
      have jl: "j < length (result_set ps)" using "1.prems" lt by simp
      have b: "unat (nelts ?ps) \<le> length (result_set ?ps)"
        using "1.prems"(3) by (simp add: select_store_fields)
      have c: "unat (nelts ?ps) \<le> length (query_set ?ps)"
        using "1.prems"(4) by (simp add: select_store_fields)
      have d: "\<not> file_rejected sy (registered ?ps)"
        using "1.prems"(5) by (simp add: registered_def select_store_fields)
      from "1.IH"(1) [OF lt ok y e a b c d] True show ?thesis
        by (auto simp: up select_store_fields select_store_result [OF jl]
              take_Suc_update [OF jl])
    qed
  qed
qed

subsection \<open>The loops of the one-shot bitmap call\<close>

lemma build_rejected:
  "file_rejected sy ds \<Longrightarrow> apr_poll_select_build sy K H ds b = Inl APR_EBADF"
  by (induction ds arbitrary: b) (auto simp: file_rejected_def Let_def)

lemma build_accepted:
  "\<not> file_rejected sy ds \<Longrightarrow> \<exists>b'. apr_poll_select_build sy K H ds b = Inr b'"
  by (induction ds arbitrary: b) (auto simp: file_rejected_def Let_def)

lemma results_accepted:
  "\<not> file_rejected sy ds \<Longrightarrow>
   apr_poll_select_results sy K H r ds =
     (APR_SUCCESS, map (\<lambda>d. d\<lparr>rtnevents := bitmap_events K r (handle_of H d)\<rparr>) ds)"
  by (induction ds)
     (auto simp: file_rejected_def Let_def not_socket bitmap_events_def handle_of_def
        or.assoc)

subsection \<open>Status and count after a wait\<close>

lemma apr_poll_poll_outcome:
  "let R = apr_poll_poll K H sys tmp aprset t; r = sys (hd (calls R)) in
     nsds R = Some (poll_rv r) \<and> status R = wait_status (poll_rv r) (poll_errno r)"
  by (simp add: apr_poll_poll_def Let_def wait_status_def)

lemma apr_pollset_poll_poll_outcome:
  "let R = apr_pollset_poll_poll K sys ps t; r = sys (hd (w_calls R)) in
     w_num R = Some (poll_rv r) \<and> w_status R = wait_status (poll_rv r) (poll_errno r)"
  by (simp add: apr_pollset_poll_poll_def Let_def wait_status_def case_prod_beta)

lemma apr_poll_select_outcome:
  assumes "\<not> file_rejected sy aprset"
  shows "let R = apr_poll_select sy K H sys aprset t; r = sys (hd (s_calls R)) in
     s_nsds R = Some (select_rv r) \<and> s_status R = wait_status (select_rv r) (select_errno r)"
proof -
  obtain b where b: "apr_poll_select_build sy K H aprset
                \<lparr>b_readset = {}, b_writeset = {}, b_exceptset = {},
                 b_maxfd = - 1, b_is_pipe = 0\<rparr> = Inr b"
    using build_accepted [OF assms] by blast
  show ?thesis
    by (simp add: apr_poll_select_def Let_def b wait_status_def
          results_accepted [OF assms])
qed

lemma apr_poll_select_no_wait:
  assumes "file_rejected sy aprset"
  shows "s_status (apr_poll_select sy K H sys aprset t) = APR_EBADF \<and>
         s_calls (apr_poll_select sy K H sys aprset t) = [] \<and>
         s_nsds (apr_poll_select sy K H sys aprset t) = None \<and>
         s_aprset_out (apr_poll_select sy K H sys aprset t) = aprset"
  by (simp add: apr_poll_select_def Let_def build_rejected [OF assms])

lemma select_collect_status:
  assumes "\<not> file_rejected sy (registered ps)" "pollset_ok ps"
  shows "fst (select_collect sy K H r 0 0 ps) = APR_SUCCESS"
proof -
  obtain st j' ps' where e: "select_collect sy K H r 0 0 ps = (st, j', ps')"
    by (cases "select_collect sy K H r 0 0 ps") auto
  have l: "unat (nelts ps) \<le> length (result_set ps)" "unat (nelts ps) \<le> length (query_set ps)"
    using assms(2) by (simp_all add: pollset_ok_def word_le_nat_alt)
  from select_collect_result [OF e _ l assms(1)] e show ?thesis by simp
qed

lemma apr_pollset_poll_select_outcome:
  assumes "\<not> file_rejected sy (registered ps)" "pollset_ok ps"
  shows "let R = apr_pollset_poll_select sy K H sys ps t; r = sys (hd (w_calls R)) in
     w_num R = Some (select_rv r) \<and> w_status R = wait_status (select_rv r) (select_errno r)"
  by (simp add: apr_pollset_poll_select_def Let_def wait_status_def case_prod_beta
        select_collect_status [OF assms])

subsection \<open>One native call for each wait\<close>

lemma calls_one:
  "length (calls (apr_poll_poll K H sysp tmp aprset t)) = 1"
  "length (w_calls (apr_pollset_poll_poll K sysp ps t)) = 1"
  "length (w_calls (apr_pollset_poll_select sy K H syss pss t)) = 1"
  by (simp_all add: apr_poll_poll_def apr_pollset_poll_poll_def apr_pollset_poll_select_def
        Let_def case_prod_beta)

lemma ex_select_ps: "adds_select Win32 2 [sock 3 1] =
   \<lparr>nelts = 1, nalloc = 2, query_set = [sock 3 1, sock 0 0], result_set = [sock 0 0, sock 0 0],
    pool = 0, readset = {3}, writeset = {}, exceptset = {}, maxfd = 3\<rparr>"
  by (simp add: adds_select_def apr_pollset_create_select_def apr_pollset_add_select_def
        arena0_def Let_def sock_def heap0_def linux_consts_def upt_rec)

lemma ex_poll_ps: "adds_poll 3 [sock 3 1, sock 4 5] =
   \<lparr>nelts = 2, nalloc = 3, query_set = [sock 3 1, sock 4 5, sock 0 0],
    result_set = [sock 0 0, sock 0 0, sock 0 0],
    pool = 0, pollset = [\<lparr>fd = 3, events = 1, revents = 0\<rparr>, \<lparr>fd = 4, events = 5, revents = 0\<rparr>,
      \<lparr>fd = 0, events = 0, revents = 0\<rparr>]\<rparr>"
  by (simp add: adds_poll_def apr_pollset_create_poll_def apr_pollset_add_poll_def
        arena0_def Let_def sock_def heap0_def linux_consts_def upt_rec get_event_def)

text \<open>
  Claim C8. The one-shot call of the event-list backend stores the translated result
  in \<open>rtnevents\<close> of every record it was given, from whatever the native array holds
  after the native call, and it does so whatever the native call returned: the status is
  computed after the stores. So the field is overwritten also when the call reports a
  platform error or a timeout; the other fields of the records stay as they were.
\<close>

theorem poll_once_writes_before_checks:
  "let R = apr_poll_poll K H sys tmp aprset t; r = sys (hd (calls R)) in
     aprset_out R =
       map (\<lambda>i. (aprset ! i)\<lparr>rtnevents := get_revent K (poll_revents r i)\<rparr>)
         [0..<length aprset] \<and>
     status R = wait_status (poll_rv r) (poll_errno r)"
  by (simp add: apr_poll_poll_def Let_def wait_status_def)

lemma ex_revent: "get_revent linux_consts 8 = 0x10" "get_revent linux_consts 4 = 4"
  by (simp_all add: get_revent_def linux_consts_def)

theorem poll_once_writes_before_checks_witness:
  "status (apr_poll_poll linux_consts heap0 (poll_answer (- 1) [8, 4] 4) (fresh_pollfd arena0)
             [sock 3 1, sock 4 5] 5000) = Errno 4 \<and>
   map rtnevents (aprset_out (apr_poll_poll linux_consts heap0 (poll_answer (- 1) [8, 4] 4)
             (fresh_pollfd arena0) [sock 3 1, sock 4 5] 5000)) = [0x10, 4] \<and>
   status (apr_poll_poll linux_consts heap0 (poll_answer 0 [8, 4] 0) (fresh_pollfd arena0)
             [sock 3 1, sock 4 5] 5000) = APR_TIMEUP \<and>
   map rtnevents (aprset_out (apr_poll_poll linux_consts heap0 (poll_answer 0 [8, 4] 0)
             (fresh_pollfd arena0) [sock 3 1, sock 4 5] 5000)) = [0x10, 4]"
  using poll_once_writes_before_checks [of linux_consts heap0 "poll_answer (- 1) [8, 4] 4"
      "fresh_pollfd arena0" "[sock 3 1, sock 4 5]" 5000]
    poll_once_writes_before_checks [of linux_consts heap0 "poll_answer 0 [8, 4] 0"
      "fresh_pollfd arena0" "[sock 3 1, sock 4 5]" 5000]
  by (simp add: Let_def wait_status_def poll_answer_def upt_rec ex_revent)

subsection \<open>The timeout handed to the native wait\<close>












subsection \<open>Adding a record\<close>

lemma unat_inc:
  fixes a b :: apr_uint32_t
  assumes "a < b"
  shows "unat (a + 1) = unat a + 1"
proof -
  have "unat a < unat b" using assms by (simp add: word_less_nat_alt)
  moreover have "unat b < 2 ^ 32" using unsigned_less [of b] by simp
  ultimately have "unat a + 1 < 2 ^ 32" by simp
  then show ?thesis by (simp add: unat_word_ariths)
qed

lemma add_poll_full:
  "nelts ps = nalloc ps \<Longrightarrow> apr_pollset_add_poll K H ps d = (APR_ENOMEM, ps)"
  by (simp add: apr_pollset_add_poll_def)

lemma add_select_full:
  "nelts ps = nalloc ps \<Longrightarrow> apr_pollset_add_select sy K H ps d = (APR_ENOMEM, ps)"
  by (simp add: apr_pollset_add_select_def)

lemma add_poll_room:
  assumes "nelts ps < nalloc ps" "pollset_poll_ok ps"
  shows "fst (apr_pollset_add_poll K H ps d) = APR_SUCCESS"
    and "nelts (snd (apr_pollset_add_poll K H ps d)) = nelts ps + 1"
    and "unat (nelts (snd (apr_pollset_add_poll K H ps d))) = unat (nelts ps) + 1"
    and "nalloc (snd (apr_pollset_add_poll K H ps d)) = nalloc ps"
    and "query_set (snd (apr_pollset_add_poll K H ps d)) = (query_set ps)[unat (nelts ps) := d]"
    and "registered (snd (apr_pollset_add_poll K H ps d)) = registered ps @ [d]"
    and "result_set (snd (apr_pollset_add_poll K H ps d)) = result_set ps"
    and "pollset (snd (apr_pollset_add_poll K H ps d)) =
           (pollset ps)[unat (nelts ps) :=
              (pollset ps ! unat (nelts ps))
                \<lparr>fd := handle_of H d, events := get_event K (reqevents d)\<rparr>]"
proof -
  have ne: "nelts ps \<noteq> nalloc ps" using assms(1) by simp
  have n: "unat (nelts ps) < unat (nalloc ps)" using assms(1) by (simp add: word_less_nat_alt)
  have lq: "unat (nelts ps) < length (query_set ps)"
    and lp: "unat (nelts ps) < length (pollset ps)"
    using n assms(2) by (simp_all add: pollset_poll_ok_def pollset_ok_def)
  show "fst (apr_pollset_add_poll K H ps d) = APR_SUCCESS"
    by (simp add: apr_pollset_add_poll_def Let_def ne)
  show "nelts (snd (apr_pollset_add_poll K H ps d)) = nelts ps + 1"
    by (simp add: apr_pollset_add_poll_def Let_def ne)
  then show "unat (nelts (snd (apr_pollset_add_poll K H ps d))) = unat (nelts ps) + 1"
    by (simp add: unat_inc [OF assms(1)])
  show "nalloc (snd (apr_pollset_add_poll K H ps d)) = nalloc ps"
    by (simp add: apr_pollset_add_poll_def Let_def ne)
  show q: "query_set (snd (apr_pollset_add_poll K H ps d)) = (query_set ps)[unat (nelts ps) := d]"
    by (simp add: apr_pollset_add_poll_def Let_def ne)
  show "registered (snd (apr_pollset_add_poll K H ps d)) = registered ps @ [d]"
    unfolding registered_def q
    \<open>unat (nelts (snd (apr_pollset_add_poll K H ps d))) = unat (nelts ps) + 1\<close>
    using lq by (simp add: take_Suc_update)
  show "result_set (snd (apr_pollset_add_poll K H ps d)) = result_set ps"
    by (simp add: apr_pollset_add_poll_def Let_def ne)
  show "pollset (snd (apr_pollset_add_poll K H ps d)) =
           (pollset ps)[unat (nelts ps) :=
              (pollset ps ! unat (nelts ps))
                \<lparr>fd := handle_of H d, events := get_event K (reqevents d)\<rparr>]"
    using lp by (simp add: apr_pollset_add_poll_def Let_def ne handle_of_def)
qed

lemma add_select_room:
  assumes "nelts ps < nalloc ps" "pollset_ok ps"
    and "\<not> (sy = Win32 \<and> desc_type d = APR_POLL_FILE)"
  shows "fst (apr_pollset_add_select sy K H ps d) = APR_SUCCESS"
    and "nelts (snd (apr_pollset_add_select sy K H ps d)) = nelts ps + 1"
    and "unat (nelts (snd (apr_pollset_add_select sy K H ps d))) = unat (nelts ps) + 1"
    and "nalloc (snd (apr_pollset_add_select sy K H ps d)) = nalloc ps"
    and "query_set (snd (apr_pollset_add_select sy K H ps d)) =
           (query_set ps)[unat (nelts ps) := d]"
    and "registered (snd (apr_pollset_add_select sy K H ps d)) = registered ps @ [d]"
    and "result_set (snd (apr_pollset_add_select sy K H ps d)) = result_set ps"
    and "readset (snd (apr_pollset_add_select sy K H ps d)) =
           (if reqevents d AND APR_POLLIN K \<noteq> 0 then FD_SET K (handle_of H d) (readset ps)
            else readset ps)"
    and "writeset (snd (apr_pollset_add_select sy K H ps d)) =
           (if reqevents d AND APR_POLLOUT K \<noteq> 0 then FD_SET K (handle_of H d) (writeset ps)
            else writeset ps)"
    and "exceptset (snd (apr_pollset_add_select sy K H ps d)) =
           (if reqevents d AND
                 (APR_POLLPRI K OR APR_POLLERR K OR APR_POLLHUP K OR APR_POLLNVAL K) \<noteq> 0
            then FD_SET K (handle_of H d) (exceptset ps) else exceptset ps)"
    and "maxfd (snd (apr_pollset_add_select sy K H ps d)) =
           (if handle_of H d > maxfd ps then handle_of H d else maxfd ps)"
proof -
  have ne: "nelts ps \<noteq> nalloc ps" using assms(1) by simp
  have n: "unat (nelts ps) < unat (nalloc ps)" using assms(1) by (simp add: word_less_nat_alt)
  have lq: "unat (nelts ps) < length (query_set ps)"
    using n assms(2) by (simp_all add: pollset_ok_def)
  have ok: "\<not> (desc_type d \<noteq> APR_POLL_SOCKET \<and> sy = Win32)"
    using assms(3) by (auto simp: not_socket)
  note defs = apr_pollset_add_select_def Let_def ne ok if_False handle_of_def
  show "fst (apr_pollset_add_select sy K H ps d) = APR_SUCCESS"
    by (simp add: defs)
  show "nelts (snd (apr_pollset_add_select sy K H ps d)) = nelts ps + 1"
    by (simp add: defs)
  then show u: "unat (nelts (snd (apr_pollset_add_select sy K H ps d))) = unat (nelts ps) + 1"
    by (simp add: unat_inc [OF assms(1)])
  show "nalloc (snd (apr_pollset_add_select sy K H ps d)) = nalloc ps"
    by (simp add: defs)
  show q: "query_set (snd (apr_pollset_add_select sy K H ps d)) =
           (query_set ps)[unat (nelts ps) := d]"
    by (simp add: defs)
  show "registered (snd (apr_pollset_add_select sy K H ps d)) = registered ps @ [d]"
    unfolding registered_def q u using lq by (simp add: take_Suc_update)
  show "result_set (snd (apr_pollset_add_select sy K H ps d)) = result_set ps"
    by (simp add: defs)
  show "readset (snd (apr_pollset_add_select sy K H ps d)) =
           (if reqevents d AND APR_POLLIN K \<noteq> 0 then FD_SET K (handle_of H d) (readset ps)
            else readset ps)"
    by (simp add: defs)
  show "writeset (snd (apr_pollset_add_select sy K H ps d)) =
           (if reqevents d AND APR_POLLOUT K \<noteq> 0 then FD_SET K (handle_of H d) (writeset ps)
            else writeset ps)"
    by (simp add: defs)
  show "exceptset (snd (apr_pollset_add_select sy K H ps d)) =
           (if reqevents d AND
                 (APR_POLLPRI K OR APR_POLLERR K OR APR_POLLHUP K OR APR_POLLNVAL K) \<noteq> 0
            then FD_SET K (handle_of H d) (exceptset ps) else exceptset ps)"
    by (simp add: defs)
  show "maxfd (snd (apr_pollset_add_select sy K H ps d)) =
           (if handle_of H d > maxfd ps then handle_of H d else maxfd ps)"
    by (simp add: defs)
qed



lemma add_select_file_win32:
  assumes "nelts ps \<noteq> nalloc ps" "desc_type d = APR_POLL_FILE"
  shows "fst (apr_pollset_add_select Win32 K H ps d) = APR_EBADF"
    and "nelts (snd (apr_pollset_add_select Win32 K H ps d)) = nelts ps"
    and "nalloc (snd (apr_pollset_add_select Win32 K H ps d)) = nalloc ps"
    and "registered (snd (apr_pollset_add_select Win32 K H ps d)) = registered ps"
    and "readset (snd (apr_pollset_add_select Win32 K H ps d)) = readset ps"
    and "writeset (snd (apr_pollset_add_select Win32 K H ps d)) = writeset ps"
    and "exceptset (snd (apr_pollset_add_select Win32 K H ps d)) = exceptset ps"
    and "maxfd (snd (apr_pollset_add_select Win32 K H ps d)) = maxfd ps"
  using assms by (simp_all add: apr_pollset_add_select_def Let_def registered_def)

lemma ex_select_unix: "adds_select Unix 2 [sock 3 1] =
   \<lparr>nelts = 1, nalloc = 2, query_set = [sock 3 1, sock 0 0], result_set = [sock 0 0, sock 0 0],
    pool = 0, readset = {3}, writeset = {}, exceptset = {}, maxfd = 3\<rparr>"
  by (simp add: adds_select_def apr_pollset_create_select_def apr_pollset_add_select_def
        arena0_def Let_def sock_def heap0_def linux_consts_def upt_rec)

lemma ex_select_full: "adds_select Win32 1 [sock 3 1] =
   \<lparr>nelts = 1, nalloc = 1, query_set = [sock 3 1], result_set = [sock 0 0],
    pool = 0, readset = {3}, writeset = {}, exceptset = {}, maxfd = 3\<rparr>"
  by (simp add: adds_select_def apr_pollset_create_select_def apr_pollset_add_select_def
        arena0_def Let_def sock_def heap0_def linux_consts_def upt_rec)






lemma in_set_rejected:
  "d \<in> set ds \<Longrightarrow> desc_type d = APR_POLL_FILE \<Longrightarrow> file_rejected Win32 ds"
  by (auto simp: file_rejected_def list_ex_iff)

text \<open>
  Claim C7, as stated, fails for \<open>apr_pollset_add\<close> on a full pollset: the capacity test
  comes first, and the file record is turned away with \<open>APR_ENOMEM\<close>, not with the
  not-supported error.
\<close>

theorem file_record_full_counterexample:
  "desc_type (file' 7 1) = APR_POLL_FILE \<and>
   fst (apr_pollset_add_select Win32 linux_consts heap0 (adds_select Win32 1 [sock 3 1])
          (file' 7 1)) = APR_ENOMEM \<and>
   fst (apr_pollset_add_select Win32 linux_consts heap0 (adds_select Win32 1 [sock 3 1])
          (file' 7 1)) \<noteq> APR_EBADF"
  by (simp add: ex_select_full apr_pollset_add_select_def file'_def)

text \<open>
  Claim C7, amended. In the bitmap backend built with \<open>WIN32\<close>, a file record is
  rejected with \<open>APR_EBADF\<close>: by the one-shot call whenever the array holds one (no native
  wait is made, whatever the other records, the timeout and the system), and by
  \<open>apr_pollset_add\<close> whenever the pollset is not full (the count, the registry and the
  bit-vectors stay as they were). On a full pollset \<open>apr_pollset_add\<close> returns
  \<open>APR_ENOMEM\<close> before it looks at the kind.
\<close>

theorem win32_bitmap_rejects_files:
  "desc_type d = APR_POLL_FILE \<Longrightarrow>
   (d \<in> set aprset \<longrightarrow>
      s_status (apr_poll_select Win32 K H syss aprset t) = APR_EBADF \<and>
      s_calls (apr_poll_select Win32 K H syss aprset t) = [] \<and>
      s_aprset_out (apr_poll_select Win32 K H syss aprset t) = aprset) \<and>
   (nelts ps \<noteq> nalloc ps \<longrightarrow>
      fst (apr_pollset_add_select Win32 K H ps d) = APR_EBADF \<and>
      nelts (snd (apr_pollset_add_select Win32 K H ps d)) = nelts ps \<and>
      registered (snd (apr_pollset_add_select Win32 K H ps d)) = registered ps \<and>
      readset (snd (apr_pollset_add_select Win32 K H ps d)) = readset ps \<and>
      writeset (snd (apr_pollset_add_select Win32 K H ps d)) = writeset ps \<and>
      exceptset (snd (apr_pollset_add_select Win32 K H ps d)) = exceptset ps \<and>
      maxfd (snd (apr_pollset_add_select Win32 K H ps d)) = maxfd ps) \<and>
   (nelts ps = nalloc ps \<longrightarrow>
      apr_pollset_add_select Win32 K H ps d = (APR_ENOMEM, ps))"
  using apr_poll_select_no_wait [OF in_set_rejected, of d aprset K H syss t]
  by (simp add: add_select_file_win32 add_select_full)

theorem win32_bitmap_rejects_files_witness:
  "desc_type (file' 7 1) = APR_POLL_FILE \<and>
   file' 7 1 \<in> set [sock 3 1, file' 7 1] \<and>
   nelts (adds_select Win32 2 [sock 3 1]) \<noteq> nalloc (adds_select Win32 2 [sock 3 1]) \<and>
   s_status (apr_poll_select Win32 linux_consts heap0 (select_answer 1 {3} {} {} 0)
      [sock 3 1, file' 7 1] 0) = APR_EBADF \<and>
   s_calls (apr_poll_select Win32 linux_consts heap0 (select_answer 1 {3} {} {} 0)
      [sock 3 1, file' 7 1] 0) = [] \<and>
   fst (apr_pollset_add_select Win32 linux_consts heap0 (adds_select Win32 2 [sock 3 1])
      (file' 7 1)) = APR_EBADF \<and>
   nelts (snd (apr_pollset_add_select Win32 linux_consts heap0 (adds_select Win32 2 [sock 3 1])
      (file' 7 1))) = nelts (adds_select Win32 2 [sock 3 1])"
proof -
  have h1: "desc_type (file' 7 1) = APR_POLL_FILE"
    by (simp add: file'_def)
  have h2: "file' 7 1 \<in> set [sock 3 1, file' 7 1]"
    by simp
  have h3: "nelts (adds_select Win32 2 [sock 3 1]) \<noteq> nalloc (adds_select Win32 2 [sock 3 1])"
    by (simp add: ex_select_ps)
  show ?thesis
    using win32_bitmap_rejects_files [OF h1, where aprset = "[sock 3 1, file' 7 1]"
        and K = linux_consts and H = heap0 and syss = "select_answer 1 {3} {} {} 0" and t = 0
        and ps = "adds_select Win32 2 [sock 3 1]"] h1 h2 h3
    by simp
qed

subsection \<open>What the bitmap backend reports\<close>

lemma take_as_map: "n \<le> length xs \<Longrightarrow> take n xs = map ((!) xs) [0..<n]"
  by (simp add: list_eq_iff_nth_eq)

lemma index_filter_map:
  assumes "n \<le> length xs"
  shows "map (\<lambda>k. f (xs ! k)) (filter (\<lambda>k. P (xs ! k)) [0..<n]) = map f (filter P (take n xs))"
  by (simp add: take_as_map [OF assms] filter_map comp_def)

lemma bitmap_events_within:
  "bitmap_events K r h OR (APR_POLLIN K OR APR_POLLOUT K OR APR_POLLERR K) =
     APR_POLLIN K OR APR_POLLOUT K OR APR_POLLERR K"
  unfolding bitmap_events_def
  by (simp add: bit_eq_iff bit_or_iff) blast

lemma bitmap_events_none:
  assumes "consts_ok K"
  shows "bitmap_events K r h AND (APR_POLLPRI K OR APR_POLLHUP K OR APR_POLLNVAL K) = 0"
proof -
  have d: "APR_POLLIN K AND APR_POLLPRI K = 0" "APR_POLLIN K AND APR_POLLHUP K = 0"
    "APR_POLLIN K AND APR_POLLNVAL K = 0"
    "APR_POLLPRI K AND APR_POLLOUT K = 0" "APR_POLLOUT K AND APR_POLLHUP K = 0"
    "APR_POLLOUT K AND APR_POLLNVAL K = 0"
    "APR_POLLPRI K AND APR_POLLERR K = 0" "APR_POLLERR K AND APR_POLLHUP K = 0"
    "APR_POLLERR K AND APR_POLLNVAL K = 0"
    using assms by (simp_all add: consts_ok_def)
  have d': "APR_POLLOUT K AND APR_POLLPRI K = 0" "APR_POLLERR K AND APR_POLLPRI K = 0"
    using d by (simp_all add: and.commute)
  show ?thesis
    unfolding bitmap_events_def
    by (simp add: bit.conj_disj_distrib bit.conj_disj_distrib2 d d')
qed

lemma apr_poll_select_written:
  "let R = apr_poll_select sy K H syss aprset t; r = syss (hd (s_calls R)) in
     s_aprset_out R =
       (if s_status R = APR_SUCCESS
        then map (\<lambda>d. d\<lparr>rtnevents := bitmap_events K r (handle_of H d)\<rparr>) aprset
        else aprset)"
proof (cases "file_rejected sy aprset")
  case True
  then show ?thesis by (simp add: Let_def apr_poll_select_no_wait)
next
  case False
  obtain b where b: "apr_poll_select_build sy K H aprset
                \<lparr>b_readset = {}, b_writeset = {}, b_exceptset = {},
                 b_maxfd = - 1, b_is_pipe = 0\<rparr> = Inr b"
    using build_accepted [OF False] by blast
  show ?thesis
    by (simp add: apr_poll_select_def Let_def b results_accepted [OF False])
qed

lemma apr_pollset_poll_select_written:
  assumes "pollset_ok pss" "\<not> file_rejected sy (registered pss)"
  shows "let R = apr_pollset_poll_select sy K H syss pss t; r = syss (hd (w_calls R)) in
     w_status R = APR_SUCCESS \<longrightarrow>
       w_filled R = Some (length (filter (select_ready H r) (registered pss))) \<and>
       take (length (filter (select_ready H r) (registered pss))) (result_set (w_pollset R)) =
         map (\<lambda>d. d\<lparr>rtnevents := bitmap_events K r (handle_of H d)\<rparr>)
           (filter (select_ready H r) (registered pss))"
proof -
  define c where "c = \<lparr>sc_pipe = False, sc_nfds = maxfd pss + 1,
               sc_readfds = readset pss, sc_writefds = writeset pss,
               sc_exceptfds = exceptset pss,
               sc_timeout = (if sint t < 0 then None
                   else Some (narrow (LONG_BIT K) (apr_time_sec (sint t)),
                              narrow (LONG_BIT K) (apr_time_usec (sint t))))\<rparr>"
  define r where "r = syss c"
  obtain st j' ps' where e: "select_collect sy K H r 0 0 pss = (st, j', ps')"
    by (cases "select_collect sy K H r 0 0 pss") auto
  have l: "unat (nelts pss) \<le> length (result_set pss)" "unat (nelts pss) \<le> length (query_set pss)"
    using assms(1) by (simp_all add: pollset_ok_def word_le_nat_alt)
  from select_collect_result [OF e _ l assms(2)]
  have res: "j' = length (filter (\<lambda>k. select_ready H r (query_set pss ! k)) [0..<unat (nelts pss)])"
    "take j' (result_set ps') =
       map (\<lambda>k. (query_set pss ! k)
              \<lparr>rtnevents := bitmap_events K r (handle_of H (query_set pss ! k))\<rparr>)
         (filter (\<lambda>k. select_ready H r (query_set pss ! k)) [0..<unat (nelts pss)])"
    by auto
  have len: "length (filter (\<lambda>k. select_ready H r (query_set pss ! k)) [0..<unat (nelts pss)]) =
             length (filter (select_ready H r) (registered pss))"
    using index_filter_map [OF l(2), of "\<lambda>d. d" "select_ready H r"]
    by (metis length_map registered_def)
  have j: "j' = length (filter (select_ready H r) (registered pss))"
    using res(1) len by simp
  have tk: "take j' (result_set ps') =
         map (\<lambda>d. d\<lparr>rtnevents := bitmap_events K r (handle_of H d)\<rparr>)
           (filter (select_ready H r) (registered pss))"
    using res(2)
      index_filter_map [OF l(2),
        of "\<lambda>d. d\<lparr>rtnevents := bitmap_events K r (handle_of H d)\<rparr>" "select_ready H r"]
    by (simp add: registered_def)
  show ?thesis
    using e j tk
    by (simp add: apr_pollset_poll_select_def Let_def c_def [symmetric] r_def [symmetric])
qed

text \<open>
  Claim C10. Under the bitmap backend the \<open>rtnevents\<close> a wait writes are, for the handle
  \<open>h\<close> of the record, \<open>APR_POLLIN\<close> if \<open>h\<close> is in the read set \<open>select\<close> left,
  \<open>APR_POLLOUT\<close> if it is in the write set and \<open>APR_POLLERR\<close> if it is in the exception
  set, and nothing else (\<open>bitmap_events\<close>): in the one-shot call every record gets this
  value when the call succeeds and no record is written otherwise; in the pollset wait the
  populated entries of \<open>result_set\<close> are the ready registered records, in order, with this
  value. So the written value has no bit outside the three flags, membership in the
  exception set alone is reported as \<open>APR_POLLERR\<close> alone, and, the flags having
  bits of their own, \<open>APR_POLLPRI\<close>, \<open>APR_POLLHUP\<close> and \<open>APR_POLLNVAL\<close> never appear,
  whatever was requested.
\<close>

theorem bitmap_reports_three_flags:
  "(let R = apr_poll_select sy K H syss aprset t; r' = syss (hd (s_calls R)) in
      s_aprset_out R =
        (if s_status R = APR_SUCCESS
         then map (\<lambda>d. d\<lparr>rtnevents := bitmap_events K r' (handle_of H d)\<rparr>) aprset
         else aprset)) \<and>
   (pollset_ok pss \<and> \<not> file_rejected sy (registered pss) \<longrightarrow>
      (let R = apr_pollset_poll_select sy K H syss pss t; r' = syss (hd (w_calls R)) in
         w_status R = APR_SUCCESS \<longrightarrow>
           w_filled R = Some (length (filter (select_ready H r') (registered pss))) \<and>
           take (length (filter (select_ready H r') (registered pss)))
               (result_set (w_pollset R)) =
             map (\<lambda>d. d\<lparr>rtnevents := bitmap_events K r' (handle_of H d)\<rparr>)
               (filter (select_ready H r') (registered pss)))) \<and>
   bitmap_events K r h OR (APR_POLLIN K OR APR_POLLOUT K OR APR_POLLERR K) =
     APR_POLLIN K OR APR_POLLOUT K OR APR_POLLERR K \<and>
   (h \<notin> select_readfds r \<and> h \<notin> select_writefds r \<and> h \<in> select_exceptfds r \<longrightarrow>
      bitmap_events K r h = APR_POLLERR K) \<and>
   (consts_ok K \<longrightarrow>
      bitmap_events K r h AND (APR_POLLPRI K OR APR_POLLHUP K OR APR_POLLNVAL K) = 0)"
  using apr_poll_select_written [of sy K H syss aprset t]
    apr_pollset_poll_select_written [of pss sy K H syss t]
    bitmap_events_within [of K r h] bitmap_events_none [of K r h]
  by (simp add: Let_def) (simp add: bitmap_events_def)

lemma ex_select_all: "adds_select Unix 2 [sock 3 0x77] =
   \<lparr>nelts = 1, nalloc = 2, query_set = [sock 3 0x77, sock 0 0], result_set = [sock 0 0, sock 0 0],
    pool = 0, readset = {3}, writeset = {3}, exceptset = {3}, maxfd = 3\<rparr>"
  by (simp add: adds_select_def apr_pollset_create_select_def apr_pollset_add_select_def
        arena0_def Let_def sock_def heap0_def linux_consts_def upt_rec)

theorem bitmap_reports_three_flags_witness:
  "pollset_ok (adds_select Unix 2 [sock 3 0x77]) \<and>
   \<not> file_rejected Unix (registered (adds_select Unix 2 [sock 3 0x77])) \<and>
   consts_ok linux_consts \<and>
   s_status (apr_poll_select Unix linux_consts heap0 (select_answer 1 {} {} {3} 0)
      [sock 3 0x77] 0) = APR_SUCCESS \<and>
   map rtnevents (s_aprset_out (apr_poll_select Unix linux_consts heap0
      (select_answer 1 {} {} {3} 0) [sock 3 0x77] 0)) = [0x10] \<and>
   w_status (apr_pollset_poll_select Unix linux_consts heap0 (select_answer 1 {} {} {3} 0)
      (adds_select Unix 2 [sock 3 0x77]) 0) = APR_SUCCESS \<and>
   w_filled (apr_pollset_poll_select Unix linux_consts heap0 (select_answer 1 {} {} {3} 0)
      (adds_select Unix 2 [sock 3 0x77]) 0) = Some 1 \<and>
   map rtnevents (take 1 (result_set (w_pollset (apr_pollset_poll_select Unix linux_consts heap0
      (select_answer 1 {} {} {3} 0) (adds_select Unix 2 [sock 3 0x77]) 0)))) = [0x10] \<and>
   bitmap_events linux_consts \<lparr>select_rv = 1, select_readfds = {}, select_writefds = {},
      select_exceptfds = {3}, select_errno = 0\<rparr> 3 AND (0x02 OR 0x20 OR 0x40) = 0"
proof -
  let ?ps = "adds_select Unix 2 [sock 3 0x77]"
  let ?sys = "select_answer 1 {} {} {3} 0"
  let ?r = "\<lparr>select_rv = 1, select_readfds = {}, select_writefds = {},
      select_exceptfds = {3}, select_errno = 0\<rparr>"
  have h1: "pollset_ok ?ps"
    by (simp add: ex_select_all pollset_ok_def)
  have reg: "registered ?ps = [sock 3 0x77]"
    by (simp add: ex_select_all registered_def)
  have h2: "\<not> file_rejected Unix (registered ?ps)"
    by (simp add: file_rejected_def)
  have h2': "\<not> file_rejected Unix [sock 3 0x77]"
    by (simp add: file_rejected_def)
  have s1: "s_status (apr_poll_select Unix linux_consts heap0 ?sys [sock 3 0x77] 0) = APR_SUCCESS"
    using apr_poll_select_outcome [OF h2', of linux_consts heap0 ?sys 0]
    by (simp add: Let_def select_answer_def wait_status_def)
  have s2: "w_status (apr_pollset_poll_select Unix linux_consts heap0 ?sys ?ps 0) = APR_SUCCESS"
    using apr_pollset_poll_select_outcome [OF h2 h1, of linux_consts heap0 ?sys 0]
    by (simp add: Let_def select_answer_def wait_status_def)
  have v: "handle_of heap0 (sock 3 0x77) = 3"
    "select_ready heap0 ?r (sock 3 0x77)"
    "bitmap_events linux_consts ?r 3 = 0x10"
    "APR_POLLPRI linux_consts = 0x02" "APR_POLLHUP linux_consts = 0x20"
    "APR_POLLNVAL linux_consts = 0x40"
    by (simp_all add: handle_of_def select_ready_def bitmap_events_def sock_def heap0_def
          linux_consts_def)
  show ?thesis
    using bitmap_reports_three_flags [where sy = Unix and K = linux_consts and H = heap0
        and syss = ?sys and aprset = "[sock 3 0x77]" and t = 0 and pss = ?ps
        and r = ?r and h = 3] h1 h2 consts_ok_linux s1 s2
    by (simp add: Let_def select_answer_def reg v)
qed

subsection \<open>The loops of removal\<close>

lemma unat_dec:
  fixes a :: apr_uint32_t
  shows "0 < unat a \<Longrightarrow> unat (a - 1) = unat a - 1"
  by (metis unat_minus_one unat_eq_zero less_numeral_extra(3))

lemma remove_copies_poll_stop:
  "\<not> i < old \<Longrightarrow> remove_copies_poll d dst old i ps = ps"
  by (subst remove_copies_poll.simps) simp

lemma remove_copies_poll_match:
  "i < old \<Longrightarrow> d = desc (query_set ps ! i) \<Longrightarrow>
   remove_copies_poll d dst old i ps =
     remove_copies_poll d dst old (Suc i) (ps\<lparr>nelts := nelts ps - 1\<rparr>)"
  by (subst remove_copies_poll.simps) simp

lemma remove_copies_poll_copy:
  "i < old \<Longrightarrow> d \<noteq> desc (query_set ps ! i) \<Longrightarrow>
   remove_copies_poll d dst old i ps =
     remove_copies_poll d dst old (Suc i)
       (ps\<lparr>pollset := (pollset ps)[dst := pollset ps ! i],
           query_set := (query_set ps)[dst := query_set ps ! i]\<rparr>)"
  by (subst remove_copies_poll.simps) simp

lemma filter_upd_above:
  "dst < i \<Longrightarrow>
   filter (\<lambda>k. desc (qs[dst := x] ! k) = d) [i..<old] = filter (\<lambda>k. desc (qs ! k) = d) [i..<old]"
  by (rule filter_cong) auto

lemma remove_copies_poll_count:
  assumes "dst < i" "old - i \<le> unat (nelts ps)"
  shows "unat (nelts (remove_copies_poll d dst old i ps)) +
           length (filter (\<lambda>k. desc (query_set ps ! k) = d) [i..<old]) = unat (nelts ps) \<and>
         nalloc (remove_copies_poll d dst old i ps) = nalloc ps \<and>
         length (query_set (remove_copies_poll d dst old i ps)) = length (query_set ps) \<and>
         length (pollset (remove_copies_poll d dst old i ps)) = length (pollset ps) \<and>
         result_set (remove_copies_poll d dst old i ps) = result_set ps"
  using assms
proof (induction d dst old i ps rule: remove_copies_poll.induct)
  case (1 d dst old i ps)
  show ?case
  proof (cases "i < old")
    case False
    then show ?thesis by (simp add: remove_copies_poll_stop)
  next
    case True
    note lt = True
    have up: "[i..<old] = i # [Suc i..<old]"
      using lt by (simp add: upt_conv_Cons)
    have pos: "0 < unat (nelts ps)" using "1.prems"(2) lt by simp
    show ?thesis
    proof (cases "d = desc (query_set ps ! i)")
      case True
      have a: "dst < i + 1" using "1.prems"(1) by simp
      have b: "old - (i + 1) \<le> unat (nelts (ps\<lparr>nelts := nelts ps - 1\<rparr>))"
        using "1.prems"(2) lt pos by (simp add: unat_dec)
      from "1.IH"(1) [OF lt True a b] True lt pos show ?thesis
        by (simp add: remove_copies_poll_match up unat_dec)
    next
      case False
      have a: "dst < i + 1" using "1.prems"(1) by simp
      let ?ps = "ps\<lparr>pollset := (pollset ps)[dst := pollset ps ! i],
           query_set := (query_set ps)[dst := query_set ps ! i]\<rparr>"
      have b: "old - (i + 1) \<le> unat (nelts ?ps)"
        using "1.prems"(2) by simp
      have f: "filter (\<lambda>k. desc ((query_set ps)[dst := query_set ps ! i] ! k) = d) [Suc i..<old] =
               filter (\<lambda>k. desc (query_set ps ! k) = d) [Suc i..<old]"
        using filter_upd_above [of dst "Suc i"] "1.prems"(1) by simp
      from "1.IH"(2) [OF lt False a b] False lt show ?thesis
        by (simp add: remove_copies_poll_copy up f)
    qed
  qed
qed

lemma remove_find_poll_stop:
  "\<not> i < unat (nelts ps) \<Longrightarrow> remove_find_poll d i ps = (APR_NOTFOUND, ps)"
  by (subst remove_find_poll.simps) simp

lemma remove_find_poll_hit:
  "i < unat (nelts ps) \<Longrightarrow> d = desc (query_set ps ! i) \<Longrightarrow>
   remove_find_poll d i ps =
     (APR_SUCCESS,
      remove_copies_poll d i (unat (nelts ps)) (Suc i) (ps\<lparr>nelts := nelts ps - 1\<rparr>))"
  by (subst remove_find_poll.simps) simp

lemma remove_find_poll_miss:
  "i < unat (nelts ps) \<Longrightarrow> d \<noteq> desc (query_set ps ! i) \<Longrightarrow>
   remove_find_poll d i ps = remove_find_poll d (Suc i) ps"
  by (subst remove_find_poll.simps) simp

lemma remove_find_poll_count:
  "unat (nelts (snd (remove_find_poll d i ps))) +
     length (filter (\<lambda>k. desc (query_set ps ! k) = d) [i..<unat (nelts ps)]) = unat (nelts ps) \<and>
   nalloc (snd (remove_find_poll d i ps)) = nalloc ps \<and>
   length (query_set (snd (remove_find_poll d i ps))) = length (query_set ps) \<and>
   length (pollset (snd (remove_find_poll d i ps))) = length (pollset ps) \<and>
   result_set (snd (remove_find_poll d i ps)) = result_set ps \<and>
   fst (remove_find_poll d i ps) =
     (if filter (\<lambda>k. desc (query_set ps ! k) = d) [i..<unat (nelts ps)] = []
      then APR_NOTFOUND else APR_SUCCESS) \<and>
   (filter (\<lambda>k. desc (query_set ps ! k) = d) [i..<unat (nelts ps)] = [] \<longrightarrow>
      snd (remove_find_poll d i ps) = ps)"
proof (induction d i ps rule: remove_find_poll.induct)
  case (1 d i ps)
  show ?case
  proof (cases "i < unat (nelts ps)")
    case False
    then show ?thesis by (simp add: remove_find_poll_stop)
  next
    case True
    note lt = True
    have up: "[i..<unat (nelts ps)] = i # [Suc i..<unat (nelts ps)]"
      using lt by (simp add: upt_conv_Cons)
    show ?thesis
    proof (cases "d = desc (query_set ps ! i)")
      case True
      have pos: "0 < unat (nelts ps)" using lt by simp
      have b: "unat (nelts ps) - Suc i \<le> unat (nelts (ps\<lparr>nelts := nelts ps - 1\<rparr>))"
        using lt pos by (simp add: unat_dec)
      from remove_copies_poll_count [OF _ b, of i d] True lt pos show ?thesis
        by (simp add: remove_find_poll_hit up unat_dec)
    next
      case False
      from "1.IH" [OF lt False] False lt show ?thesis
        by (simp add: remove_find_poll_miss up)
    qed
  qed
qed

lemma remove_copies_select_stop:
  "\<not> i < old \<Longrightarrow> remove_copies_select d dst old i ps = ps"
  by (subst remove_copies_select.simps) simp

lemma remove_copies_select_match:
  "i < old \<Longrightarrow> d = desc (query_set ps ! i) \<Longrightarrow>
   remove_copies_select d dst old i ps =
     remove_copies_select d dst old (Suc i) (ps\<lparr>nelts := nelts ps - 1\<rparr>)"
  by (subst remove_copies_select.simps) simp

lemma remove_copies_select_copy:
  "i < old \<Longrightarrow> d \<noteq> desc (query_set ps ! i) \<Longrightarrow>
   remove_copies_select d dst old i ps =
     remove_copies_select d dst old (Suc i)
       (ps\<lparr>query_set := (query_set ps)[dst := query_set ps ! i]\<rparr>)"
  by (subst remove_copies_select.simps) simp

lemma remove_copies_select_count:
  assumes "dst < i" "old - i \<le> unat (nelts ps)"
  shows "unat (nelts (remove_copies_select d dst old i ps)) +
           length (filter (\<lambda>k. desc (query_set ps ! k) = d) [i..<old]) = unat (nelts ps) \<and>
         nalloc (remove_copies_select d dst old i ps) = nalloc ps \<and>
         length (query_set (remove_copies_select d dst old i ps)) = length (query_set ps) \<and>
         result_set (remove_copies_select d dst old i ps) = result_set ps \<and>
         readset (remove_copies_select d dst old i ps) = readset ps \<and>
         writeset (remove_copies_select d dst old i ps) = writeset ps \<and>
         exceptset (remove_copies_select d dst old i ps) = exceptset ps \<and>
         maxfd (remove_copies_select d dst old i ps) = maxfd ps"
  using assms
proof (induction d dst old i ps rule: remove_copies_select.induct)
  case (1 d dst old i ps)
  show ?case
  proof (cases "i < old")
    case False
    then show ?thesis by (simp add: remove_copies_select_stop)
  next
    case True
    note lt = True
    have up: "[i..<old] = i # [Suc i..<old]"
      using lt by (simp add: upt_conv_Cons)
    have pos: "0 < unat (nelts ps)" using "1.prems"(2) lt by simp
    show ?thesis
    proof (cases "d = desc (query_set ps ! i)")
      case True
      have a: "dst < i + 1" using "1.prems"(1) by simp
      have b: "old - (i + 1) \<le> unat (nelts (ps\<lparr>nelts := nelts ps - 1\<rparr>))"
        using "1.prems"(2) lt pos by (simp add: unat_dec)
      from "1.IH"(1) [OF lt True a b] True lt pos show ?thesis
        by (simp add: remove_copies_select_match up unat_dec)
    next
      case False
      have a: "dst < i + 1" using "1.prems"(1) by simp
      let ?ps = "ps\<lparr>query_set := (query_set ps)[dst := query_set ps ! i]\<rparr>"
      have b: "old - (i + 1) \<le> unat (nelts ?ps)"
        using "1.prems"(2) by simp
      have f: "filter (\<lambda>k. desc ((query_set ps)[dst := query_set ps ! i] ! k) = d) [Suc i..<old] =
               filter (\<lambda>k. desc (query_set ps ! k) = d) [Suc i..<old]"
        using filter_upd_above [of dst "Suc i"] "1.prems"(1) by simp
      from "1.IH"(2) [OF lt False a b] False lt show ?thesis
        by (simp add: remove_copies_select_copy up f)
    qed
  qed
qed

lemma remove_find_select_stop:
  "\<not> i < unat (nelts ps) \<Longrightarrow> remove_find_select h d i ps = (APR_NOTFOUND, ps)"
  by (subst remove_find_select.simps) simp

lemma remove_find_select_hit:
  "i < unat (nelts ps) \<Longrightarrow> d = desc (query_set ps ! i) \<Longrightarrow>
   remove_find_select h d i ps =
     (let ps = remove_copies_select d i (unat (nelts ps)) (Suc i) (ps\<lparr>nelts := nelts ps - 1\<rparr>);
          ps = ps\<lparr>readset := readset ps - {h}\<rparr>;
          ps = ps\<lparr>writeset := writeset ps - {h}\<rparr>;
          ps = ps\<lparr>exceptset := exceptset ps - {h}\<rparr>;
          ps = (if h = maxfd ps \<and> maxfd ps > 0 then ps\<lparr>maxfd := maxfd ps - 1\<rparr> else ps)
      in (APR_SUCCESS, ps))"
  by (subst remove_find_select.simps) simp

lemma remove_find_select_miss:
  "i < unat (nelts ps) \<Longrightarrow> d \<noteq> desc (query_set ps ! i) \<Longrightarrow>
   remove_find_select h d i ps = remove_find_select h d (Suc i) ps"
  by (subst remove_find_select.simps) simp

lemma remove_find_select_count:
  "unat (nelts (snd (remove_find_select h d i ps))) +
     length (filter (\<lambda>k. desc (query_set ps ! k) = d) [i..<unat (nelts ps)]) = unat (nelts ps) \<and>
   nalloc (snd (remove_find_select h d i ps)) = nalloc ps \<and>
   length (query_set (snd (remove_find_select h d i ps))) = length (query_set ps) \<and>
   result_set (snd (remove_find_select h d i ps)) = result_set ps \<and>
   fst (remove_find_select h d i ps) =
     (if filter (\<lambda>k. desc (query_set ps ! k) = d) [i..<unat (nelts ps)] = []
      then APR_NOTFOUND else APR_SUCCESS) \<and>
   (filter (\<lambda>k. desc (query_set ps ! k) = d) [i..<unat (nelts ps)] = [] \<longrightarrow>
      snd (remove_find_select h d i ps) = ps)"
proof (induction h d i ps rule: remove_find_select.induct)
  case (1 h d i ps)
  show ?case
  proof (cases "i < unat (nelts ps)")
    case False
    then show ?thesis by (simp add: remove_find_select_stop)
  next
    case True
    note lt = True
    have up: "[i..<unat (nelts ps)] = i # [Suc i..<unat (nelts ps)]"
      using lt by (simp add: upt_conv_Cons)
    show ?thesis
    proof (cases "d = desc (query_set ps ! i)")
      case True
      have pos: "0 < unat (nelts ps)" using lt by simp
      have b: "unat (nelts ps) - Suc i \<le> unat (nelts (ps\<lparr>nelts := nelts ps - 1\<rparr>))"
        using lt pos by (simp add: unat_dec)
      from remove_copies_select_count [OF _ b, of i d] True lt pos show ?thesis
        by (simp add: remove_find_select_hit up unat_dec Let_def)
    next
      case False
      from "1.IH" [OF lt False] False lt show ?thesis
        by (simp add: remove_find_select_miss up)
    qed
  qed
qed

subsection \<open>The count stays within the capacity\<close>

lemma word_inc_le:
  fixes a b :: apr_uint32_t
  assumes "a \<le> b" "a \<noteq> b"
  shows "a + 1 \<le> b" "a < b"
proof -
  show lt: "a < b" using assms by simp
  then show "a + 1 \<le> b" by (rule inc_le)
qed

lemma create_count:
  "nelts (snd (apr_pollset_create_poll A n pl)) = 0 \<and>
   nalloc (snd (apr_pollset_create_poll A n pl)) = n \<and>
   pollset_poll_ok (snd (apr_pollset_create_poll A n pl)) \<and>
   nelts (snd (apr_pollset_create_select A n pl)) = 0 \<and>
   nalloc (snd (apr_pollset_create_select A n pl)) = n \<and>
   pollset_ok (snd (apr_pollset_create_select A n pl))"
  by (simp add: apr_pollset_create_poll_def apr_pollset_create_select_def pollset_poll_ok_def
        pollset_ok_def)

lemma add_poll_count:
  assumes "nelts ps \<le> nalloc ps"
  shows "nelts (snd (apr_pollset_add_poll K H ps d)) \<le> nalloc (snd (apr_pollset_add_poll K H ps d)) \<and>
         nalloc (snd (apr_pollset_add_poll K H ps d)) = nalloc ps \<and>
         nelts (snd (apr_pollset_add_poll K H ps d)) =
           (if fst (apr_pollset_add_poll K H ps d) = APR_SUCCESS then nelts ps + 1 else nelts ps) \<and>
         (fst (apr_pollset_add_poll K H ps d) = APR_SUCCESS) = (nelts ps < nalloc ps)"
proof (cases "nelts ps = nalloc ps")
  case True
  then show ?thesis by (simp add: apr_pollset_add_poll_def)
next
  case False
  from word_inc_le [OF assms False] False show ?thesis
    by (simp add: apr_pollset_add_poll_def Let_def)
qed

lemma add_select_count:
  assumes "nelts ps \<le> nalloc ps"
  shows "nelts (snd (apr_pollset_add_select sy K H ps d))
           \<le> nalloc (snd (apr_pollset_add_select sy K H ps d)) \<and>
         nalloc (snd (apr_pollset_add_select sy K H ps d)) = nalloc ps \<and>
         nelts (snd (apr_pollset_add_select sy K H ps d)) =
           (if fst (apr_pollset_add_select sy K H ps d) = APR_SUCCESS
            then nelts ps + 1 else nelts ps) \<and>
         (fst (apr_pollset_add_select sy K H ps d) = APR_SUCCESS) =
           (nelts ps < nalloc ps \<and> \<not> (sy = Win32 \<and> desc_type d = APR_POLL_FILE))"
proof (cases "nelts ps = nalloc ps")
  case True
  then show ?thesis by (simp add: apr_pollset_add_select_def)
next
  case False
  from word_inc_le [OF assms False] False show ?thesis
    by (auto simp: apr_pollset_add_select_def Let_def not_socket)
qed

lemma remove_poll_count:
  "unat (nelts (snd (apr_pollset_remove_poll ps d))) +
     length (filter (\<lambda>k. desc (query_set ps ! k) = desc d) [0..<unat (nelts ps)]) =
     unat (nelts ps) \<and>
   nelts (snd (apr_pollset_remove_poll ps d)) \<le> nelts ps \<and>
   nalloc (snd (apr_pollset_remove_poll ps d)) = nalloc ps"
proof -
  have c: "unat (nelts (snd (apr_pollset_remove_poll ps d))) +
     length (filter (\<lambda>k. desc (query_set ps ! k) = desc d) [0..<unat (nelts ps)]) =
     unat (nelts ps)"
    and n: "nalloc (snd (apr_pollset_remove_poll ps d)) = nalloc ps"
    using remove_find_poll_count [of "desc d" 0 ps]
    by (simp_all add: apr_pollset_remove_poll_def)
  from c have "unat (nelts (snd (apr_pollset_remove_poll ps d))) \<le> unat (nelts ps)"
    by linarith
  then show ?thesis using c n by (simp add: word_le_nat_alt)
qed

lemma remove_select_count:
  "unat (nelts (snd (apr_pollset_remove_select H ps d))) +
     length (filter (\<lambda>k. desc (query_set ps ! k) = desc d) [0..<unat (nelts ps)]) =
     unat (nelts ps) \<and>
   nelts (snd (apr_pollset_remove_select H ps d)) \<le> nelts ps \<and>
   nalloc (snd (apr_pollset_remove_select H ps d)) = nalloc ps"
proof -
  have c: "unat (nelts (snd (apr_pollset_remove_select H ps d))) +
     length (filter (\<lambda>k. desc (query_set ps ! k) = desc d) [0..<unat (nelts ps)]) =
     unat (nelts ps)"
    and n: "nalloc (snd (apr_pollset_remove_select H ps d)) = nalloc ps"
    using remove_find_select_count [of _ "desc d" 0 ps]
    by (simp_all add: apr_pollset_remove_select_def Let_def)
  from c have "unat (nelts (snd (apr_pollset_remove_select H ps d))) \<le> unat (nelts ps)"
    by linarith
  then show ?thesis using c n by (simp add: word_le_nat_alt)
qed

lemma poll_count:
  "nelts (w_pollset (apr_pollset_poll_poll K sysp ps t)) = nelts ps \<and>
   nalloc (w_pollset (apr_pollset_poll_poll K sysp ps t)) = nalloc ps \<and>
   nelts (w_pollset (apr_pollset_poll_select sy K H syss pss t)) = nelts pss \<and>
   nalloc (w_pollset (apr_pollset_poll_select sy K H syss pss t)) = nalloc pss"
  by (simp add: apr_pollset_poll_poll_def apr_pollset_poll_select_def Let_def case_prod_beta
        poll_collect_fields select_collect_fields)

text \<open>
  Claim C9. Every pollset operation keeps \<open>nelts \<le> nalloc\<close> (both are unsigned, so
  \<open>0 \<le> nelts\<close> always holds). Create sets \<open>nelts\<close> to 0 and \<open>nalloc\<close> to the size
  asked for. Add changes \<open>nelts\<close> only when it succeeds, by one, and it succeeds only
  when \<open>nelts < nalloc\<close>, so the increment neither passes the capacity nor wraps around.
  Remove lowers \<open>nelts\<close> by exactly the number of indices below the old \<open>nelts\<close> whose
  entry has the descriptor sought, once for each, without wrap-around. The wait and destroy
  change neither \<open>nelts\<close> nor \<open>nalloc\<close>, and no operation changes \<open>nalloc\<close>.
\<close>

theorem count_within_capacity:
  "nelts (snd (apr_pollset_create_poll A n pl)) = 0 \<and>
   nalloc (snd (apr_pollset_create_poll A n pl)) = n \<and>
   nelts (snd (apr_pollset_create_select A n pl)) = 0 \<and>
   nalloc (snd (apr_pollset_create_select A n pl)) = n \<and>
   (nelts ps \<le> nalloc ps \<longrightarrow>
      nelts (snd (apr_pollset_add_poll K H ps d)) \<le> nalloc (snd (apr_pollset_add_poll K H ps d)) \<and>
      nelts (snd (apr_pollset_add_poll K H ps d)) =
        (if fst (apr_pollset_add_poll K H ps d) = APR_SUCCESS then nelts ps + 1 else nelts ps) \<and>
      (fst (apr_pollset_add_poll K H ps d) = APR_SUCCESS) = (nelts ps < nalloc ps) \<and>
      nelts (snd (apr_pollset_remove_poll ps d))
        \<le> nalloc (snd (apr_pollset_remove_poll ps d)) \<and>
      nelts (w_pollset (apr_pollset_poll_poll K sysp ps t))
        \<le> nalloc (w_pollset (apr_pollset_poll_poll K sysp ps t)) \<and>
      nelts (snd (apr_pollset_destroy ps)) \<le> nalloc (snd (apr_pollset_destroy ps))) \<and>
   (nelts pss \<le> nalloc pss \<longrightarrow>
      nelts (snd (apr_pollset_add_select sy K H pss d))
        \<le> nalloc (snd (apr_pollset_add_select sy K H pss d)) \<and>
      nelts (snd (apr_pollset_add_select sy K H pss d)) =
        (if fst (apr_pollset_add_select sy K H pss d) = APR_SUCCESS
         then nelts pss + 1 else nelts pss) \<and>
      (fst (apr_pollset_add_select sy K H pss d) = APR_SUCCESS) =
        (nelts pss < nalloc pss \<and> \<not> (sy = Win32 \<and> desc_type d = APR_POLL_FILE)) \<and>
      nelts (snd (apr_pollset_remove_select H pss d))
        \<le> nalloc (snd (apr_pollset_remove_select H pss d)) \<and>
      nelts (w_pollset (apr_pollset_poll_select sy K H syss pss t))
        \<le> nalloc (w_pollset (apr_pollset_poll_select sy K H syss pss t)) \<and>
      nelts (snd (apr_pollset_destroy pss)) \<le> nalloc (snd (apr_pollset_destroy pss))) \<and>
   nalloc (snd (apr_pollset_add_poll K H ps d)) = nalloc ps \<and>
   nalloc (snd (apr_pollset_add_select sy K H pss d)) = nalloc pss \<and>
   unat (nelts (snd (apr_pollset_remove_poll ps d))) +
     length (filter (\<lambda>k. desc (query_set ps ! k) = desc d) [0..<unat (nelts ps)]) =
     unat (nelts ps) \<and>
   nalloc (snd (apr_pollset_remove_poll ps d)) = nalloc ps \<and>
   unat (nelts (snd (apr_pollset_remove_select H pss d))) +
     length (filter (\<lambda>k. desc (query_set pss ! k) = desc d) [0..<unat (nelts pss)]) =
     unat (nelts pss) \<and>
   nalloc (snd (apr_pollset_remove_select H pss d)) = nalloc pss \<and>
   nelts (w_pollset (apr_pollset_poll_poll K sysp ps t)) = nelts ps \<and>
   nalloc (w_pollset (apr_pollset_poll_poll K sysp ps t)) = nalloc ps \<and>
   nelts (w_pollset (apr_pollset_poll_select sy K H syss pss t)) = nelts pss \<and>
   nalloc (w_pollset (apr_pollset_poll_select sy K H syss pss t)) = nalloc pss \<and>
   apr_pollset_destroy ps = (APR_SUCCESS, ps) \<and>
   apr_pollset_destroy pss = (APR_SUCCESS, pss)"
proof -
  have np: "nalloc (snd (apr_pollset_add_poll K H ps d)) = nalloc ps"
    by (simp add: apr_pollset_add_poll_def Let_def)
  have ns: "nalloc (snd (apr_pollset_add_select sy K H pss d)) = nalloc pss"
    by (simp add: apr_pollset_add_select_def Let_def)
  have rp: "nelts ps \<le> nalloc ps \<Longrightarrow>
      nelts (snd (apr_pollset_remove_poll ps d)) \<le> nalloc (snd (apr_pollset_remove_poll ps d))"
    using remove_poll_count [of ps d] by (metis order_trans)
  have rs: "nelts pss \<le> nalloc pss \<Longrightarrow>
      nelts (snd (apr_pollset_remove_select H pss d))
        \<le> nalloc (snd (apr_pollset_remove_select H pss d))"
    using remove_select_count [of H pss d] by (metis order_trans)
  show ?thesis
    using create_count [of A n pl] add_poll_count [of ps K H d]
      add_select_count [of pss sy K H d] remove_poll_count [of ps d]
      remove_select_count [of H pss d] poll_count [of K sysp ps t sy H syss pss] rp rs np ns
    by (simp add: apr_pollset_destroy_def inc_le)
qed

theorem count_within_capacity_witness:
  "nelts (adds_poll 3 [sock 3 1, sock 4 5]) \<le> nalloc (adds_poll 3 [sock 3 1, sock 4 5]) \<and>
   nelts (adds_select Unix 2 [sock 3 1]) \<le> nalloc (adds_select Unix 2 [sock 3 1]) \<and>
   nelts (snd (apr_pollset_add_poll linux_consts heap0 (adds_poll 3 [sock 3 1, sock 4 5])
     (sock 4 5))) \<le>
   nalloc (snd (apr_pollset_add_poll linux_consts heap0 (adds_poll 3 [sock 3 1, sock 4 5])
     (sock 4 5))) \<and>
   nelts (snd (apr_pollset_remove_poll (adds_poll 3 [sock 3 1, sock 4 5]) (sock 4 5))) \<le>
   nalloc (snd (apr_pollset_remove_poll (adds_poll 3 [sock 3 1, sock 4 5]) (sock 4 5))) \<and>
   unat (nelts (snd (apr_pollset_remove_poll (adds_poll 3 [sock 3 1, sock 4 5]) (sock 4 5))))
     = 1 \<and>
   nelts (snd (apr_pollset_add_select Unix linux_consts heap0 (adds_select Unix 2 [sock 3 1])
     (sock 4 5))) \<le>
   nalloc (snd (apr_pollset_add_select Unix linux_consts heap0 (adds_select Unix 2 [sock 3 1])
     (sock 4 5))) \<and>
   nelts (snd (apr_pollset_remove_select heap0 (adds_select Unix 2 [sock 3 1]) (sock 4 5))) \<le>
   nalloc (snd (apr_pollset_remove_select heap0 (adds_select Unix 2 [sock 3 1]) (sock 4 5))) \<and>
   unat (nelts (snd (apr_pollset_remove_select heap0 (adds_select Unix 2 [sock 3 1])
     (sock 4 5)))) = 1"
proof -
  let ?ps = "adds_poll 3 [sock 3 1, sock 4 5]"
  let ?pss = "adds_select Unix 2 [sock 3 1]"
  have h1: "nelts ?ps \<le> nalloc ?ps" and n1: "unat (nelts ?ps) = 2"
    by (simp_all add: ex_poll_ps)
  have h2: "nelts ?pss \<le> nalloc ?pss" and n2: "unat (nelts ?pss) = 1"
    by (simp_all add: ex_select_unix)
  have q1: "query_set ?ps = [sock 3 1, sock 4 5, sock 0 0]"
    by (simp add: ex_poll_ps)
  have q2: "query_set ?pss = [sock 3 1, sock 0 0]"
    by (simp add: ex_select_unix)
  have m1: "filter (\<lambda>k. desc (query_set ?ps ! k) = desc (sock 4 5)) [0..<2] = [1]"
    unfolding q1 by (simp add: upt_rec sock_def)
  have m2: "filter (\<lambda>k. desc (query_set ?pss ! k) = desc (sock 4 5)) [0..<1] = []"
    unfolding q2 by (simp add: sock_def)
  note T = count_within_capacity [where ps = ?ps and pss = ?pss and K = linux_consts
        and H = heap0 and d = "sock 4 5" and sy = Unix and A = arena0 and n = 0 and pl = 0
        and sysp = "poll_answer 0 [] 0" and syss = "select_answer 0 {} {} {} 0" and t = 0]
  from T have c1: "unat (nelts (snd (apr_pollset_remove_poll ?ps (sock 4 5)))) +
     length (filter (\<lambda>k. desc (query_set ?ps ! k) = desc (sock 4 5)) [0..<unat (nelts ?ps)]) =
     unat (nelts ?ps)"
    by blast
  from T have c2: "unat (nelts (snd (apr_pollset_remove_select heap0 ?pss (sock 4 5)))) +
     length (filter (\<lambda>k. desc (query_set ?pss ! k) = desc (sock 4 5)) [0..<unat (nelts ?pss)]) =
     unat (nelts ?pss)"
    by blast
  have v1: "unat (nelts (snd (apr_pollset_remove_poll ?ps (sock 4 5)))) = 1"
    using c1 unfolding n1 m1 by simp
  have v2: "unat (nelts (snd (apr_pollset_remove_select heap0 ?pss (sock 4 5)))) = 1"
    using c2 unfolding n2 m2 by simp
  from T h1 h2 v1 v2 show ?thesis
    by blast
qed

subsection \<open>Removal on concrete registries\<close>

lemma ex_poll_abc: "adds_poll 3 [sock 3 1, sock 4 1, sock 5 1] =
   \<lparr>nelts = 3, nalloc = 3, query_set = [sock 3 1, sock 4 1, sock 5 1],
    result_set = [sock 0 0, sock 0 0, sock 0 0], pool = 0,
    pollset = [\<lparr>fd = 3, events = 1, revents = 0\<rparr>, \<lparr>fd = 4, events = 1, revents = 0\<rparr>,
      \<lparr>fd = 5, events = 1, revents = 0\<rparr>]\<rparr>"
  by (simp add: adds_poll_def apr_pollset_create_poll_def apr_pollset_add_poll_def
        arena0_def Let_def sock_def heap0_def linux_consts_def upt_rec get_event_def)

lemma ex_poll_abacd: "adds_poll 5 [sock 3 1, sock 4 1, sock 3 1, sock 5 1, sock 6 1] =
   \<lparr>nelts = 5, nalloc = 5, query_set = [sock 3 1, sock 4 1, sock 3 1, sock 5 1, sock 6 1],
    result_set = [sock 0 0, sock 0 0, sock 0 0, sock 0 0, sock 0 0], pool = 0,
    pollset = [\<lparr>fd = 3, events = 1, revents = 0\<rparr>, \<lparr>fd = 4, events = 1, revents = 0\<rparr>,
      \<lparr>fd = 3, events = 1, revents = 0\<rparr>, \<lparr>fd = 5, events = 1, revents = 0\<rparr>,
      \<lparr>fd = 6, events = 1, revents = 0\<rparr>]\<rparr>"
  by (simp add: adds_poll_def apr_pollset_create_poll_def apr_pollset_add_poll_def
        arena0_def Let_def sock_def heap0_def linux_consts_def upt_rec get_event_def)

lemma ex_select_abc: "adds_select Unix 3 [sock 3 1, sock 4 1, sock 5 1] =
   \<lparr>nelts = 3, nalloc = 3, query_set = [sock 3 1, sock 4 1, sock 5 1],
    result_set = [sock 0 0, sock 0 0, sock 0 0], pool = 0,
    readset = {3, 4, 5}, writeset = {}, exceptset = {}, maxfd = 5\<rparr>"
  by (simp add: adds_select_def apr_pollset_create_select_def apr_pollset_add_select_def
        arena0_def Let_def sock_def heap0_def linux_consts_def upt_rec insert_commute)

lemmas remove_poll_rules =
  remove_find_poll_stop remove_find_poll_hit remove_find_poll_miss
  remove_copies_poll_stop remove_copies_poll_match remove_copies_poll_copy

lemmas remove_select_rules =
  remove_find_select_stop remove_find_select_hit remove_find_select_miss
  remove_copies_select_stop remove_copies_select_match remove_copies_select_copy

lemma ex_remove_abc:
  "apr_pollset_remove_poll (adds_poll 3 [sock 3 1, sock 4 1, sock 5 1]) (sock 3 1) =
     (APR_SUCCESS,
      \<lparr>nelts = 2, nalloc = 3, query_set = [sock 5 1, sock 4 1, sock 5 1],
       result_set = [sock 0 0, sock 0 0, sock 0 0], pool = 0,
       pollset = [\<lparr>fd = 5, events = 1, revents = 0\<rparr>, \<lparr>fd = 4, events = 1, revents = 0\<rparr>,
         \<lparr>fd = 5, events = 1, revents = 0\<rparr>]\<rparr>)"
  unfolding ex_poll_abc
  by (simp add: apr_pollset_remove_poll_def remove_poll_rules sock_def)

lemma ex_remove_abacd:
  "apr_pollset_remove_poll (adds_poll 5 [sock 3 1, sock 4 1, sock 3 1, sock 5 1, sock 6 1])
      (sock 3 1) =
     (APR_SUCCESS,
      \<lparr>nelts = 3, nalloc = 5, query_set = [sock 6 1, sock 4 1, sock 3 1, sock 5 1, sock 6 1],
       result_set = [sock 0 0, sock 0 0, sock 0 0, sock 0 0, sock 0 0], pool = 0,
       pollset = [\<lparr>fd = 6, events = 1, revents = 0\<rparr>, \<lparr>fd = 4, events = 1, revents = 0\<rparr>,
         \<lparr>fd = 3, events = 1, revents = 0\<rparr>, \<lparr>fd = 5, events = 1, revents = 0\<rparr>,
         \<lparr>fd = 6, events = 1, revents = 0\<rparr>]\<rparr>)"
  unfolding ex_poll_abacd
  by (simp add: apr_pollset_remove_poll_def remove_poll_rules sock_def)

lemma ex_remove_select_abc:
  "apr_pollset_remove_select heap0 (adds_select Unix 3 [sock 3 1, sock 4 1, sock 5 1])
      (sock 3 1) =
     (APR_SUCCESS,
      \<lparr>nelts = 2, nalloc = 3, query_set = [sock 5 1, sock 4 1, sock 5 1],
       result_set = [sock 0 0, sock 0 0, sock 0 0], pool = 0,
       readset = {4, 5}, writeset = {}, exceptset = {}, maxfd = 5\<rparr>)"
  unfolding ex_select_abc
  by (simp add: apr_pollset_remove_select_def remove_select_rules sock_def heap0_def Let_def
        insert_commute)

text \<open>
  Claim C1 is not met by the code. The inner loop of \<open>apr_pollset_remove\<close> copies every
  surviving entry after the first match to the same slot \<open>dst\<close>, which it never
  advances. With the registry \<open>A, B, C\<close> (three different sockets), removing \<open>A\<close> leaves
  \<open>C, B\<close>, where the claim has \<open>B, C\<close>; with \<open>A, B, A, C, D\<close> it leaves \<open>D, B, A\<close>:
  the second copy of \<open>A\<close> is still registered and \<open>C\<close> is gone. Both builds have the
  loop. The count alone is right (it goes down once per match).
\<close>

theorem remove_overwrites_one_slot:
  "fst (apr_pollset_remove_poll (adds_poll 3 [sock 3 1, sock 4 1, sock 5 1]) (sock 3 1)) =
     APR_SUCCESS \<and>
   registered (adds_poll 3 [sock 3 1, sock 4 1, sock 5 1]) = [sock 3 1, sock 4 1, sock 5 1] \<and>
   registered (snd (apr_pollset_remove_poll (adds_poll 3 [sock 3 1, sock 4 1, sock 5 1])
     (sock 3 1))) = [sock 5 1, sock 4 1] \<and>
   filter (\<lambda>e. desc e \<noteq> desc (sock 3 1)) (registered (adds_poll 3 [sock 3 1, sock 4 1, sock 5 1]))
     = [sock 4 1, sock 5 1] \<and>
   registered (adds_poll 5 [sock 3 1, sock 4 1, sock 3 1, sock 5 1, sock 6 1]) =
     [sock 3 1, sock 4 1, sock 3 1, sock 5 1, sock 6 1] \<and>
   registered (snd (apr_pollset_remove_poll
     (adds_poll 5 [sock 3 1, sock 4 1, sock 3 1, sock 5 1, sock 6 1]) (sock 3 1))) =
     [sock 6 1, sock 4 1, sock 3 1] \<and>
   registered (snd (apr_pollset_remove_select heap0
     (adds_select Unix 3 [sock 3 1, sock 4 1, sock 5 1]) (sock 3 1))) = [sock 5 1, sock 4 1]"
proof -
  have a: "registered (adds_poll 3 [sock 3 1, sock 4 1, sock 5 1]) =
             [sock 3 1, sock 4 1, sock 5 1]"
    by (simp add: ex_poll_abc registered_def)
  have b: "filter (\<lambda>e. desc e \<noteq> desc (sock 3 1)) [sock 3 1, sock 4 1, sock 5 1] =
             [sock 4 1, sock 5 1]"
    by (simp add: sock_def)
  have c: "registered (adds_poll 5 [sock 3 1, sock 4 1, sock 3 1, sock 5 1, sock 6 1]) =
     [sock 3 1, sock 4 1, sock 3 1, sock 5 1, sock 6 1]"
    by (simp add: ex_poll_abacd registered_def)
  show ?thesis
    unfolding a b c ex_remove_abc ex_remove_abacd ex_remove_select_abc
    by (simp add: registered_def)
qed

subsection \<open>The count a pollset wait reports\<close>

lemma apr_pollset_poll_poll_written:
  assumes "pollset_poll_ok ps"
  shows "let R = apr_pollset_poll_poll K sysp ps t; r = sysp (hd (w_calls R));
             ready = filter (\<lambda>k. poll_revents r k \<noteq> 0) [0..<unat (nelts ps)] in
     w_status R = APR_SUCCESS \<longrightarrow>
       w_filled R = Some (length ready) \<and>
       w_descriptors R = Some (result_set (w_pollset R)) \<and>
       take (length ready) (result_set (w_pollset R)) =
         map (\<lambda>k. (query_set ps ! k)\<lparr>rtnevents := get_revent K (poll_revents r k)\<rparr>) ready"
proof -
  define tm where "tm = narrow 32 (if sint t > 0 then sint t sdiv 1000 else sint t)"
  let ?n = "unat (nelts ps)"
  let ?c = "\<lparr>pc_fds = take ?n (pollset ps), pc_timeout = tm\<rparr>"
  let ?r = "sysp ?c"
  let ?m = "map (\<lambda>i. if i < ?n then (pollset ps ! i)\<lparr>revents := poll_revents ?r i\<rparr>
                       else pollset ps ! i) [0..<length (pollset ps)]"
  let ?ps1 = "ps\<lparr>pollset := ?m\<rparr>"
  have ln: "?n \<le> length (pollset ps)" "?n \<le> length (result_set ps)"
    using assms by (simp_all add: pollset_poll_ok_def pollset_ok_def word_le_nat_alt)
  have rev: "k < ?n \<Longrightarrow> revents (?m ! k) = poll_revents ?r k" for k
    using ln(1) by simp
  have f: "filter (\<lambda>k. revents (?m ! k) \<noteq> 0) [0..<?n] =
           filter (\<lambda>k. poll_revents ?r k \<noteq> 0) [0..<?n]"
    by (rule filter_cong) (simp_all only: rev atLeastLessThan_iff set_upt)
  obtain j' ps' where e: "poll_collect K 0 0 ?ps1 = (j', ps')"
    by (cases "poll_collect K 0 0 ?ps1") auto
  have l: "unat (nelts ?ps1) \<le> length (result_set ?ps1)"
    using ln(2) by simp
  have res: "j' = 0 + length (filter (\<lambda>k. revents (pollset ?ps1 ! k) \<noteq> 0) [0..<unat (nelts ?ps1)]) \<and>
         take j' (result_set ps') =
           take 0 (result_set ?ps1) @
           map (\<lambda>k. (query_set ?ps1 ! k)\<lparr>rtnevents := get_revent K (revents (pollset ?ps1 ! k))\<rparr>)
             (filter (\<lambda>k. revents (pollset ?ps1 ! k) \<noteq> 0) [0..<unat (nelts ?ps1)])"
    by (rule poll_collect_result [OF e _ l]) simp
  have nn: "unat (nelts ?ps1) = ?n" "query_set ?ps1 = query_set ps" "pollset ?ps1 = ?m"
    by simp_all
  have j: "j' = length (filter (\<lambda>k. poll_revents ?r k \<noteq> 0) [0..<?n])"
    using res unfolding nn f by simp
  have tk: "take j' (result_set ps') =
       map (\<lambda>k. (query_set ps ! k)\<lparr>rtnevents := get_revent K (revents (?m ! k))\<rparr>)
         (filter (\<lambda>k. poll_revents ?r k \<noteq> 0) [0..<?n])"
    using res unfolding nn f by auto
  have tk': "take j' (result_set ps') =
       map (\<lambda>k. (query_set ps ! k)\<lparr>rtnevents := get_revent K (poll_revents ?r k)\<rparr>)
         (filter (\<lambda>k. poll_revents ?r k \<noteq> 0) [0..<?n])"
    unfolding tk by (rule map_cong) (simp_all only: rev set_filter set_upt atLeastLessThan_iff mem_Collect_eq)
  have R: "apr_pollset_poll_poll K sysp ps t =
     (if poll_rv ?r < 0 then
           \<lparr>w_status = Errno (poll_errno ?r), w_num = Some (poll_rv ?r), w_descriptors = None,
            w_filled = None, w_pollset = ?ps1, w_calls = [?c]\<rparr>
         else if poll_rv ?r = 0 then
           \<lparr>w_status = APR_TIMEUP, w_num = Some (poll_rv ?r), w_descriptors = None,
            w_filled = None, w_pollset = ?ps1, w_calls = [?c]\<rparr>
         else
           \<lparr>w_status = APR_SUCCESS, w_num = Some (poll_rv ?r),
               w_descriptors = Some (result_set ps'),
               w_filled = Some j', w_pollset = ps', w_calls = [?c]\<rparr>)"
    unfolding apr_pollset_poll_poll_def Let_def tm_def [symmetric] e by simp
  show ?thesis
    unfolding R Let_def using j tk' by simp
qed

lemma event_list_count_is_filled:
  assumes "pollset_poll_ok ps"
    and "w_status (apr_pollset_poll_poll K sysp ps t) = APR_SUCCESS"
    and "poll_rv (sysp (hd (w_calls (apr_pollset_poll_poll K sysp ps t)))) =
           int (length (filter
             (\<lambda>k. poll_revents (sysp (hd (w_calls (apr_pollset_poll_poll K sysp ps t)))) k \<noteq> 0)
             [0..<unat (nelts ps)]))"
  shows "w_num (apr_pollset_poll_poll K sysp ps t) =
           map_option int (w_filled (apr_pollset_poll_poll K sysp ps t))"
  using apr_pollset_poll_poll_written [OF assms(1), of K sysp t]
    apr_pollset_poll_poll_outcome [of K sysp ps t] assms(2,3)
  by (simp add: Let_def)

lemma ex_select_rw: "adds_select Unix 2 [sock 3 5] =
   \<lparr>nelts = 1, nalloc = 2, query_set = [sock 3 5, sock 0 0], result_set = [sock 0 0, sock 0 0],
    pool = 0, readset = {3}, writeset = {3}, exceptset = {}, maxfd = 3\<rparr>"
  by (simp add: adds_select_def apr_pollset_create_select_def apr_pollset_add_select_def
        arena0_def Let_def sock_def heap0_def linux_consts_def upt_rec)

text \<open>
  Claim C2 is not met by the bitmap backend. \<open>apr_pollset_poll\<close> stores in \<open>*num\<close> the
  value \<open>select\<close> returned, which counts the bits set in the three sets, not the entries
  of \<open>result_set\<close> the loop filled. One socket registered for reading and writing and
  ready for both: \<open>select\<close> returns 2, the loop fills one entry, and the call reports 2.
  (The event-list build reports what \<open>poll\<close> returned, the number of entries with
  nonzero \<open>revents\<close>, which is the number of entries filled.) The bitmap build also
  returns without storing \<open>*descriptors\<close>.
\<close>

theorem bitmap_poll_reports_bit_count:
  "registered (adds_select Unix 2 [sock 3 5]) = [sock 3 5] \<and>
   w_status (apr_pollset_poll_select Unix linux_consts heap0 (select_answer 2 {3} {3} {} 0)
      (adds_select Unix 2 [sock 3 5]) 0) = APR_SUCCESS \<and>
   w_num (apr_pollset_poll_select Unix linux_consts heap0 (select_answer 2 {3} {3} {} 0)
      (adds_select Unix 2 [sock 3 5]) 0) = Some 2 \<and>
   w_filled (apr_pollset_poll_select Unix linux_consts heap0 (select_answer 2 {3} {3} {} 0)
      (adds_select Unix 2 [sock 3 5]) 0) = Some 1 \<and>
   map rtnevents (take 1 (result_set (w_pollset (apr_pollset_poll_select Unix linux_consts heap0
      (select_answer 2 {3} {3} {} 0) (adds_select Unix 2 [sock 3 5]) 0)))) = [5] \<and>
   w_descriptors (apr_pollset_poll_select Unix linux_consts heap0 (select_answer 2 {3} {3} {} 0)
      (adds_select Unix 2 [sock 3 5]) 0) = None"
proof -
  let ?ps = "adds_select Unix 2 [sock 3 5]"
  let ?sys = "select_answer 2 {3} {3} {} 0"
  let ?r = "\<lparr>select_rv = 2, select_readfds = {3}, select_writefds = {3},
      select_exceptfds = {}, select_errno = 0\<rparr>"
  have h1: "pollset_ok ?ps"
    by (simp add: ex_select_rw pollset_ok_def)
  have reg: "registered ?ps = [sock 3 5]"
    by (simp add: ex_select_rw registered_def)
  have h2: "\<not> file_rejected Unix (registered ?ps)"
    by (simp add: file_rejected_def)
  have v: "select_ready heap0 ?r (sock 3 5)" "bitmap_events linux_consts ?r 3 = 5"
    "handle_of heap0 (sock 3 5) = 3"
    by (simp_all add: handle_of_def select_ready_def bitmap_events_def sock_def heap0_def
          linux_consts_def)
  have d: "w_descriptors (apr_pollset_poll_select Unix linux_consts heap0 ?sys ?ps 0) = None"
    by (simp add: apr_pollset_poll_select_def Let_def case_prod_beta)
  show ?thesis
    using apr_pollset_poll_select_outcome [OF h2 h1, of linux_consts heap0 ?sys 0]
      apr_pollset_poll_select_written [OF h1 h2, of linux_consts heap0 ?sys 0] d
    by (simp add: Let_def select_answer_def wait_status_def reg v)
qed

subsection \<open>Every pollset a caller can have is well formed\<close>

lemma remove_copies_select_within:
  assumes "dst < i" "\<forall>k<old. query_set ps ! k \<in> S"
  shows "\<forall>k<old. query_set (remove_copies_select d dst old i ps) ! k \<in> S"
  using assms
proof (induction d dst old i ps rule: remove_copies_select.induct)
  case (1 d dst old i ps)
  show ?case
  proof (cases "i < old")
    case False
    then show ?thesis using "1.prems"(2) by (simp add: remove_copies_select_stop)
  next
    case True
    note lt = True
    show ?thesis
    proof (cases "d = desc (query_set ps ! i)")
      case True
      have a: "dst < i + 1" using "1.prems"(1) by simp
      have b: "\<forall>k<old. query_set (ps\<lparr>nelts := nelts ps - 1\<rparr>) ! k \<in> S"
        using "1.prems"(2) by simp
      from "1.IH"(1) [OF lt True a b] True lt show ?thesis
        by (simp add: remove_copies_select_match)
    next
      case False
      have a: "dst < i + 1" using "1.prems"(1) by simp
      have b: "\<forall>k<old. query_set (ps\<lparr>query_set := (query_set ps)[dst := query_set ps ! i]\<rparr>) ! k \<in> S"
      proof (cases "dst < length (query_set ps)")
        case True
        then show ?thesis using "1.prems"(2) lt by (auto simp: nth_list_update)
      next
        case False
        then show ?thesis using "1.prems"(2) by (simp add: list_update_beyond)
      qed
      from "1.IH"(2) [OF lt False a b] False lt show ?thesis
        by (simp add: remove_copies_select_copy)
    qed
  qed
qed

lemma remove_find_select_within:
  assumes "\<forall>k<unat (nelts ps). query_set ps ! k \<in> S"
  shows "\<forall>k<unat (nelts ps). query_set (snd (remove_find_select h d i ps)) ! k \<in> S"
  using assms
proof (induction h d i ps rule: remove_find_select.induct)
  case (1 h d i ps)
  show ?case
  proof (cases "i < unat (nelts ps)")
    case False
    then show ?thesis using "1.prems" by (simp add: remove_find_select_stop)
  next
    case True
    note lt = True
    show ?thesis
    proof (cases "d = desc (query_set ps ! i)")
      case True
      have b: "\<forall>k<unat (nelts ps). query_set (ps\<lparr>nelts := nelts ps - 1\<rparr>) ! k \<in> S"
        using "1.prems" by simp
      from remove_copies_select_within [OF _ b, of i "Suc i" d] True lt show ?thesis
        by (simp add: remove_find_select_hit Let_def)
    next
      case False
      from "1.IH" [OF lt False "1.prems"] False lt show ?thesis
        by (simp add: remove_find_select_miss)
    qed
  qed
qed

lemma registered_after_remove_select:
  assumes "pollset_ok ps"
  shows "set (registered (snd (apr_pollset_remove_select H ps d))) \<subseteq> set (registered ps)"
proof -
  let ?n = "unat (nelts ps)"
  let ?ps' = "snd (apr_pollset_remove_select H ps d)"
  have len: "?n \<le> length (query_set ps)"
    using assms by (simp add: pollset_ok_def word_le_nat_alt)
  have a: "\<forall>k<?n. query_set ps ! k \<in> set (registered ps)"
    using len by (auto simp: registered_def in_set_conv_nth intro!: exI)
  have b: "\<forall>k<?n. query_set ?ps' ! k \<in> set (registered ps)"
    using remove_find_select_within [OF a] by (simp add: apr_pollset_remove_select_def Let_def)
  have c: "unat (nelts ?ps') \<le> ?n" "length (query_set ?ps') = length (query_set ps)"
    using remove_select_count [of H ps d] remove_find_select_count [of _ "desc d" 0 ps]
    by (simp_all add: word_le_nat_alt apr_pollset_remove_select_def Let_def)
  show ?thesis
  proof
    fix x assume "x \<in> set (registered ?ps')"
    then obtain k where k: "k < unat (nelts ?ps')" "k < length (query_set ?ps')"
      "x = query_set ?ps' ! k"
      by (auto simp: registered_def in_set_conv_nth)
    with b c show "x \<in> set (registered ps)" by simp
  qed
qed

lemma built_select_ok:
  "built_select sy K H ps \<Longrightarrow> pollset_ok ps \<and> \<not> file_rejected sy (registered ps)"
proof (induction rule: built_select.induct)
  case (created_select A n pl)
  show ?case
    using create_count [of A n pl]
    by (simp add: registered_def file_rejected_def)
next
  case (added_select ps d)
  then have ok: "pollset_ok ps" and nf: "\<not> file_rejected sy (registered ps)" by simp_all
  have le: "nelts ps \<le> nalloc ps" using ok by (simp add: pollset_ok_def)
  show ?case
  proof (cases "nelts ps = nalloc ps")
    case True
    then show ?thesis using ok nf by (simp add: add_select_full)
  next
    case False
    then have lt: "nelts ps < nalloc ps" using le by simp
    show ?thesis
    proof (cases "sy = Win32 \<and> desc_type d = APR_POLL_FILE")
      case True
      then have w: "sy = Win32" and f: "desc_type d = APR_POLL_FILE" by simp_all
      have "pollset_ok (snd (apr_pollset_add_select Win32 K H ps d))"
        using ok False f by (simp add: pollset_ok_def apr_pollset_add_select_def Let_def)
      then show ?thesis
        using add_select_file_win32(4) [OF False f, of K H] nf w by simp
    next
      case False
      have p: "pollset_ok (snd (apr_pollset_add_select sy K H ps d))"
        using ok add_select_room(2,4,5,7) [OF lt ok False, of K H] inc_le [OF lt]
        by (simp add: pollset_ok_def)
      have r: "registered (snd (apr_pollset_add_select sy K H ps d)) = registered ps @ [d]"
        by (rule add_select_room(6) [OF lt ok False])
      show ?thesis
        using p nf False unfolding r by (auto simp: file_rejected_def)
    qed
  qed
next
  case (removed_select ps d)
  then have ok: "pollset_ok ps" and nf: "\<not> file_rejected sy (registered ps)" by simp_all
  have c: "nelts (snd (apr_pollset_remove_select H ps d)) \<le> nelts ps"
    "nalloc (snd (apr_pollset_remove_select H ps d)) = nalloc ps"
    "length (query_set (snd (apr_pollset_remove_select H ps d))) = length (query_set ps)"
    "result_set (snd (apr_pollset_remove_select H ps d)) = result_set ps"
    using remove_select_count [of H ps d] remove_find_select_count [of _ "desc d" 0 ps]
    by (simp_all add: apr_pollset_remove_select_def Let_def)
  have p: "pollset_ok (snd (apr_pollset_remove_select H ps d))"
    using ok c by (auto simp: pollset_ok_def)
  have "\<not> file_rejected sy (registered (snd (apr_pollset_remove_select H ps d)))"
    using nf registered_after_remove_select [OF ok, of H d]
    by (auto simp: file_rejected_def list_ex_iff)
  with p show ?case by simp
next
  case (waited_select ps syss t)
  then have ok: "pollset_ok ps" and nf: "\<not> file_rejected sy (registered ps)" by simp_all
  have f: "nelts (w_pollset (apr_pollset_poll_select sy K H syss ps t)) = nelts ps"
    "nalloc (w_pollset (apr_pollset_poll_select sy K H syss ps t)) = nalloc ps"
    "query_set (w_pollset (apr_pollset_poll_select sy K H syss ps t)) = query_set ps"
    "length (result_set (w_pollset (apr_pollset_poll_select sy K H syss ps t))) =
       length (result_set ps)"
    by (simp_all add: apr_pollset_poll_select_def Let_def case_prod_beta select_collect_fields)
  show ?case
    using ok nf f by (simp add: pollset_ok_def registered_def)
qed

lemma built_poll_ok:
  "built_poll K H ps \<Longrightarrow> pollset_poll_ok ps"
proof (induction rule: built_poll.induct)
  case (created_poll A n pl)
  show ?case using create_count [of A n pl] by simp
next
  case (added_poll ps d)
  then have ok: "pollset_poll_ok ps" by simp
  have le: "nelts ps \<le> nalloc ps" using ok by (simp add: pollset_poll_ok_def pollset_ok_def)
  show ?case
  proof (cases "nelts ps = nalloc ps")
    case True
    then show ?thesis using ok by (simp add: add_poll_full)
  next
    case False
    then have lt: "nelts ps < nalloc ps" using le by simp
    show ?thesis
      using ok add_poll_room(2,4,5,7,8) [OF lt ok, of K H d] inc_le [OF lt]
      by (simp add: pollset_poll_ok_def pollset_ok_def)
  qed
next
  case (removed_poll ps d)
  then have ok: "pollset_poll_ok ps" by simp
  have c: "nelts (snd (apr_pollset_remove_poll ps d)) \<le> nelts ps"
    "nalloc (snd (apr_pollset_remove_poll ps d)) = nalloc ps"
    "length (query_set (snd (apr_pollset_remove_poll ps d))) = length (query_set ps)"
    "length (pollset (snd (apr_pollset_remove_poll ps d))) = length (pollset ps)"
    "result_set (snd (apr_pollset_remove_poll ps d)) = result_set ps"
    using remove_poll_count [of ps d] remove_find_poll_count [of "desc d" 0 ps]
    by (simp_all add: apr_pollset_remove_poll_def)
  show ?case
    using ok c by (auto simp: pollset_poll_ok_def pollset_ok_def)
next
  case (waited_poll ps sysp t)
  then have ok: "pollset_poll_ok ps" by simp
  have f: "nelts (w_pollset (apr_pollset_poll_poll K sysp ps t)) = nelts ps"
    "nalloc (w_pollset (apr_pollset_poll_poll K sysp ps t)) = nalloc ps"
    "query_set (w_pollset (apr_pollset_poll_poll K sysp ps t)) = query_set ps"
    "length (result_set (w_pollset (apr_pollset_poll_poll K sysp ps t))) =
       length (result_set ps)"
    "length (pollset (w_pollset (apr_pollset_poll_poll K sysp ps t))) = length (pollset ps)"
    by (simp_all add: apr_pollset_poll_poll_def Let_def case_prod_beta poll_collect_fields)
  show ?case
    using ok f by (simp add: pollset_poll_ok_def pollset_ok_def)
qed

text \<open>
  So the assumptions \<open>pollset_ok\<close>, \<open>pollset_poll_ok\<close> and, for the bitmap backend,
  \<open>\<not> file_rejected sy (registered ps)\<close> in the statements of this theory hold for every
  pollset made by \<open>apr_pollset_create\<close> and used through the functions embedded here.
\<close>

subsection \<open>Outcome of a wait\<close>

lemma calls_one_select:
  assumes "\<not> file_rejected sy aprset"
  shows "length (s_calls (apr_poll_select sy K H syss aprset t)) = 1"
proof -
  obtain b where b: "apr_poll_select_build sy K H aprset
                \<lparr>b_readset = {}, b_writeset = {}, b_exceptset = {},
                 b_maxfd = - 1, b_is_pipe = 0\<rparr> = Inr b"
    using build_accepted [OF assms] by blast
  show ?thesis
    by (simp add: apr_poll_select_def Let_def b case_prod_beta)
qed

lemma fold_built_select:
  "built_select sy K H ps \<Longrightarrow>
   built_select sy K H (fold (\<lambda>d ps. snd (apr_pollset_add_select sy K H ps d)) ds ps)"
  by (induction ds arbitrary: ps) (simp_all add: added_select)

lemma adds_select_built: "built_select sy linux_consts heap0 (adds_select sy n ds)"
  unfolding adds_select_def by (rule fold_built_select) (rule created_select)

lemma ex_select_once:
  "s_status (apr_poll_select Unix linux_consts heap0 (select_answer 2 {3} {3} {} 0)
      [sock 3 5] 0) = APR_SUCCESS"
  "s_nsds (apr_poll_select Unix linux_consts heap0 (select_answer 2 {3} {3} {} 0)
      [sock 3 5] 0) = Some 2"
  "s_aprset_out (apr_poll_select Unix linux_consts heap0 (select_answer 2 {3} {3} {} 0)
      [sock 3 5] 0) = [(sock 3 5)\<lparr>rtnevents := 5\<rparr>]"
  by (simp_all add: apr_poll_select_def Let_def sock_def heap0_def linux_consts_def
        select_answer_def)

text \<open>
  Claim C4, as stated, fails at two inputs. The one-shot call of the bitmap backend built
  with \<open>WIN32\<close>, given a file record, makes no wait and returns \<open>APR_EBADF\<close>: it neither
  succeeds nor reports a timeout or the error of a native call. And the one-shot call of
  the bitmap backend, given one socket that asks for reading and writing and is ready for
  both, succeeds and reports 2, the value \<open>select\<close> returned (the bits set in the three
  vectors), while one descriptor is ready.
\<close>

theorem wait_outcome_counterexample:
  "s_status (apr_poll_select Win32 linux_consts heap0 (select_answer 1 {3} {} {} 0)
      [sock 3 1, file' 7 1] 0) = APR_EBADF \<and>
   s_calls (apr_poll_select Win32 linux_consts heap0 (select_answer 1 {3} {} {} 0)
      [sock 3 1, file' 7 1] 0) = [] \<and>
   s_status (apr_poll_select Unix linux_consts heap0 (select_answer 2 {3} {3} {} 0)
      [sock 3 5] 0) = APR_SUCCESS \<and>
   s_nsds (apr_poll_select Unix linux_consts heap0 (select_answer 2 {3} {3} {} 0)
      [sock 3 5] 0) = Some 2 \<and>
   s_aprset_out (apr_poll_select Unix linux_consts heap0 (select_answer 2 {3} {3} {} 0)
      [sock 3 5] 0) = [(sock 3 5)\<lparr>rtnevents := 5\<rparr>]"
proof -
  have f: "file_rejected Win32 [sock 3 1, file' 7 1]"
    by (simp add: file_rejected_def file'_def)
  show ?thesis
    using apr_poll_select_no_wait [OF f, of linux_consts heap0 "select_answer 1 {3} {} {} 0" 0]
    by (simp add: ex_select_once)
qed

text \<open>
  Claim C4, amended. In the one-shot call and in the pollset wait, of either backend, the
  native wait is called once and the status follows the value it returned alone: a
  negative value gives \<open>errno\<close> as the native call left it, zero gives \<open>APR_TIMEUP\<close>
  (which is no error code), a positive value gives \<open>APR_SUCCESS\<close>. The one exception is
  the one-shot call of the bitmap backend built with \<open>WIN32\<close> on an array that holds a
  file record: it returns \<open>APR_EBADF\<close> without a native call and stores no count. (A
  pollset made by \<open>apr_pollset_create\<close> and used through add, remove and wait holds no
  file record in that build.) In the event-list backend the count stored for the caller
  is the value \<open>poll\<close> returned, which is the number of ready descriptors: where \<open>poll\<close>
  returns the number of entries it left with a nonzero \<open>revents\<close>, that number is the
  count, and a successful pollset wait has filled as many entries of \<open>result_set\<close>.
\<close>

theorem wait_outcome:
  "(let R = apr_poll_poll K H sysp tmp aprset t; r = sysp (hd (calls R)) in
      length (calls R) = 1 \<and> nsds R = Some (poll_rv r) \<and>
      status R = wait_status (poll_rv r) (poll_errno r) \<and>
      (poll_rv r = int (poll_ready r (length aprset)) \<longrightarrow>
         nsds R = Some (int (poll_ready r (length aprset))))) \<and>
   (let R = apr_pollset_poll_poll K sysp ps t; r = sysp (hd (w_calls R)) in
      length (w_calls R) = 1 \<and> w_num R = Some (poll_rv r) \<and>
      w_status R = wait_status (poll_rv r) (poll_errno r) \<and>
      (poll_rv r = int (poll_ready r (unat (nelts ps))) \<longrightarrow>
         w_num R = Some (int (poll_ready r (unat (nelts ps)))) \<and>
         (pollset_poll_ok ps \<and> w_status R = APR_SUCCESS \<longrightarrow>
            w_filled R = Some (poll_ready r (unat (nelts ps)))))) \<and>
   (let R = apr_poll_select sy K H syss aprset t; r = syss (hd (s_calls R)) in
      if file_rejected sy aprset
      then s_status R = APR_EBADF \<and> s_nsds R = None \<and> s_calls R = []
      else length (s_calls R) = 1 \<and>
           s_status R = wait_status (select_rv r) (select_errno r)) \<and>
   (built_select sy K H pss \<longrightarrow>
      (let R = apr_pollset_poll_select sy K H syss pss t; r = syss (hd (w_calls R)) in
         length (w_calls R) = 1 \<and>
         w_status R = wait_status (select_rv r) (select_errno r)))"
proof -
  have a: "let R = apr_poll_poll K H sysp tmp aprset t; r = sysp (hd (calls R)) in
      length (calls R) = 1 \<and> nsds R = Some (poll_rv r) \<and>
      status R = wait_status (poll_rv r) (poll_errno r) \<and>
      (poll_rv r = int (poll_ready r (length aprset)) \<longrightarrow>
         nsds R = Some (int (poll_ready r (length aprset))))"
    using apr_poll_poll_outcome [of K H sysp tmp aprset t]
    by (simp add: Let_def calls_one)
  have b: "let R = apr_pollset_poll_poll K sysp ps t; r = sysp (hd (w_calls R)) in
      length (w_calls R) = 1 \<and> w_num R = Some (poll_rv r) \<and>
      w_status R = wait_status (poll_rv r) (poll_errno r) \<and>
      (poll_rv r = int (poll_ready r (unat (nelts ps))) \<longrightarrow>
         w_num R = Some (int (poll_ready r (unat (nelts ps)))) \<and>
         (pollset_poll_ok ps \<and> w_status R = APR_SUCCESS \<longrightarrow>
            w_filled R = Some (poll_ready r (unat (nelts ps)))))"
  proof (cases "pollset_poll_ok ps")
    case True
    show ?thesis
      using apr_pollset_poll_poll_outcome [of K sysp ps t]
        apr_pollset_poll_poll_written [OF True, of K sysp t]
      by (simp add: Let_def calls_one poll_ready_def)
  next
    case False
    then show ?thesis
      using apr_pollset_poll_poll_outcome [of K sysp ps t]
      by (simp add: Let_def calls_one)
  qed
  have c: "let R = apr_poll_select sy K H syss aprset t; r = syss (hd (s_calls R)) in
      if file_rejected sy aprset
      then s_status R = APR_EBADF \<and> s_nsds R = None \<and> s_calls R = []
      else length (s_calls R) = 1 \<and>
           s_status R = wait_status (select_rv r) (select_errno r)"
  proof (cases "file_rejected sy aprset")
    case True
    then show ?thesis
      by (simp add: Let_def apr_poll_select_no_wait)
  next
    case False
    then show ?thesis
      using apr_poll_select_outcome [OF False, of K H syss t]
      by (simp add: Let_def calls_one_select)
  qed
  have d: "built_select sy K H pss \<longrightarrow>
      (let R = apr_pollset_poll_select sy K H syss pss t; r = syss (hd (w_calls R)) in
         length (w_calls R) = 1 \<and>
         w_status R = wait_status (select_rv r) (select_errno r))"
  proof
    assume "built_select sy K H pss"
    then have ok: "pollset_ok pss" and nf: "\<not> file_rejected sy (registered pss)"
      using built_select_ok by blast+
    show "let R = apr_pollset_poll_select sy K H syss pss t; r = syss (hd (w_calls R)) in
         length (w_calls R) = 1 \<and>
         w_status R = wait_status (select_rv r) (select_errno r)"
      using apr_pollset_poll_select_outcome [OF nf ok, of K H syss t]
      by (simp add: Let_def calls_one)
  qed
  from a b c d show ?thesis by blast
qed

theorem wait_outcome_witness:
  "built_select Win32 linux_consts heap0 (adds_select Win32 2 [sock 3 1]) \<and>
   pollset_poll_ok (adds_poll 3 [sock 3 1, sock 4 5]) \<and>
   \<not> file_rejected Win32 [sock 3 1, sock 4 5] \<and>
   file_rejected Win32 [sock 3 1, file' 7 1] \<and>
   int (poll_ready (poll_answer 1 [1, 0] 0 \<lparr>pc_fds = [], pc_timeout = 0\<rparr>) 2) = 1 \<and>
   status (apr_poll_poll linux_consts heap0 (poll_answer 1 [1, 0] 0) (fresh_pollfd arena0)
             [sock 3 1, sock 4 5] 5000) = APR_SUCCESS \<and>
   nsds (apr_poll_poll linux_consts heap0 (poll_answer 1 [1, 0] 0) (fresh_pollfd arena0)
             [sock 3 1, sock 4 5] 5000) = Some 1 \<and>
   w_status (apr_pollset_poll_poll linux_consts (poll_answer 1 [1, 0] 0)
             (adds_poll 3 [sock 3 1, sock 4 5]) 5000) = APR_SUCCESS \<and>
   w_num (apr_pollset_poll_poll linux_consts (poll_answer 1 [1, 0] 0)
             (adds_poll 3 [sock 3 1, sock 4 5]) 5000) = Some 1 \<and>
   w_filled (apr_pollset_poll_poll linux_consts (poll_answer 1 [1, 0] 0)
             (adds_poll 3 [sock 3 1, sock 4 5]) 5000) = Some 1 \<and>
   s_status (apr_poll_select Win32 linux_consts heap0 (select_answer 1 {3} {} {} 0)
             [sock 3 1, sock 4 5] 5000) = APR_SUCCESS \<and>
   w_status (apr_pollset_poll_select Win32 linux_consts heap0 (select_answer 1 {3} {} {} 0)
             (adds_select Win32 2 [sock 3 1]) 5000) = APR_SUCCESS \<and>
   status (apr_poll_poll linux_consts heap0 (poll_answer 0 [0, 0] 0) (fresh_pollfd arena0)
             [sock 3 1, file' 7 1] 5000) = APR_TIMEUP \<and>
   w_status (apr_pollset_poll_poll linux_consts (poll_answer 0 [0, 0] 0)
             (adds_poll 3 [sock 3 1, sock 4 5]) 5000) = APR_TIMEUP \<and>
   s_status (apr_poll_select Win32 linux_consts heap0 (select_answer (- 1) {} {} {} 4)
             [sock 3 1, file' 7 1] 5000) = APR_EBADF \<and>
   s_nsds (apr_poll_select Win32 linux_consts heap0 (select_answer (- 1) {} {} {} 4)
             [sock 3 1, file' 7 1] 5000) = None \<and>
   w_status (apr_pollset_poll_select Win32 linux_consts heap0 (select_answer (- 1) {} {} {} 4)
             (adds_select Win32 2 [sock 3 1]) 5000) = Errno 4"
proof -
  have h1: "built_select Win32 linux_consts heap0 (adds_select Win32 2 [sock 3 1])"
    by (rule adds_select_built)
  have h2: "pollset_poll_ok (adds_poll 3 [sock 3 1, sock 4 5])"
    and n: "unat (nelts (adds_poll 3 [sock 3 1, sock 4 5])) = 2"
    by (simp_all add: ex_poll_ps pollset_poll_ok_def pollset_ok_def)
  have h3: "\<not> file_rejected Win32 [sock 3 1, sock 4 5]"
    by (simp add: file_rejected_def sock_def)
  have h4: "file_rejected Win32 [sock 3 1, file' 7 1]"
    by (simp add: file_rejected_def file'_def)
  have r: "poll_rv (poll_answer 1 [1, 0] 0 c) = 1"
    "poll_ready (poll_answer 1 [1, 0] 0 c) 2 = 1"
    "poll_rv (poll_answer 0 [0, 0] 0 c) = 0"
    "select_rv (select_answer 1 {3} {} {} 0 c') = 1"
    "select_rv (select_answer (- 1) {} {} {} 4 c') = - 1"
    "select_errno (select_answer (- 1) {} {} {} 4 c') = 4" for c c'
    by (simp_all add: poll_answer_def select_answer_def poll_ready_def upt_rec)
  have a: "status (apr_poll_poll linux_consts heap0 (poll_answer 1 [1, 0] 0) (fresh_pollfd arena0)
             [sock 3 1, sock 4 5] 5000) = APR_SUCCESS \<and>
   nsds (apr_poll_poll linux_consts heap0 (poll_answer 1 [1, 0] 0) (fresh_pollfd arena0)
             [sock 3 1, sock 4 5] 5000) = Some 1 \<and>
   w_status (apr_pollset_poll_poll linux_consts (poll_answer 1 [1, 0] 0)
             (adds_poll 3 [sock 3 1, sock 4 5]) 5000) = APR_SUCCESS \<and>
   w_num (apr_pollset_poll_poll linux_consts (poll_answer 1 [1, 0] 0)
             (adds_poll 3 [sock 3 1, sock 4 5]) 5000) = Some 1 \<and>
   w_filled (apr_pollset_poll_poll linux_consts (poll_answer 1 [1, 0] 0)
             (adds_poll 3 [sock 3 1, sock 4 5]) 5000) = Some 1 \<and>
   s_status (apr_poll_select Win32 linux_consts heap0 (select_answer 1 {3} {} {} 0)
             [sock 3 1, sock 4 5] 5000) = APR_SUCCESS \<and>
   w_status (apr_pollset_poll_select Win32 linux_consts heap0 (select_answer 1 {3} {} {} 0)
             (adds_select Win32 2 [sock 3 1]) 5000) = APR_SUCCESS"
    using wait_outcome [where K = linux_consts and H = heap0
        and sysp = "poll_answer 1 [1, 0] 0"
        and tmp = "fresh_pollfd arena0" and aprset = "[sock 3 1, sock 4 5]" and t = 5000
        and ps = "adds_poll 3 [sock 3 1, sock 4 5]" and sy = Win32
        and syss = "select_answer 1 {3} {} {} 0"
        and pss = "adds_select Win32 2 [sock 3 1]"] h1 h2 h3
    by (simp add: Let_def wait_status_def r n)
  have b: "status (apr_poll_poll linux_consts heap0 (poll_answer 0 [0, 0] 0) (fresh_pollfd arena0)
             [sock 3 1, file' 7 1] 5000) = APR_TIMEUP \<and>
   w_status (apr_pollset_poll_poll linux_consts (poll_answer 0 [0, 0] 0)
             (adds_poll 3 [sock 3 1, sock 4 5]) 5000) = APR_TIMEUP \<and>
   s_status (apr_poll_select Win32 linux_consts heap0 (select_answer (- 1) {} {} {} 4)
             [sock 3 1, file' 7 1] 5000) = APR_EBADF \<and>
   s_nsds (apr_poll_select Win32 linux_consts heap0 (select_answer (- 1) {} {} {} 4)
             [sock 3 1, file' 7 1] 5000) = None \<and>
   w_status (apr_pollset_poll_select Win32 linux_consts heap0 (select_answer (- 1) {} {} {} 4)
             (adds_select Win32 2 [sock 3 1]) 5000) = Errno 4"
    using wait_outcome [where K = linux_consts and H = heap0
        and sysp = "poll_answer 0 [0, 0] 0"
        and tmp = "fresh_pollfd arena0" and aprset = "[sock 3 1, file' 7 1]" and t = 5000
        and ps = "adds_poll 3 [sock 3 1, sock 4 5]" and sy = Win32
        and syss = "select_answer (- 1) {} {} {} 4"
        and pss = "adds_select Win32 2 [sock 3 1]"] h1 h4
    by (simp add: Let_def wait_status_def r)
  show ?thesis
    using a b h1 h2 h3 h4 r(2) by simp
qed

subsection \<open>Removing a descriptor that is not registered\<close>

lemma no_match_filter:
  "(\<forall>k<n. desc (qs ! k) \<noteq> d) \<Longrightarrow> filter (\<lambda>k. desc (qs ! k) = d) [0..<n] = []"
  by (simp add: filter_empty_conv)

lemma remove_not_found:
  assumes "\<forall>k<unat (nelts ps). desc (query_set ps ! k) \<noteq> desc d"
  shows "apr_pollset_remove_poll ps d = (APR_NOTFOUND, ps)"
  using remove_find_poll_count [of "desc d" 0 ps] no_match_filter [OF assms]
  by (simp add: apr_pollset_remove_poll_def prod_eq_iff)

lemma remove_select_not_found:
  assumes "\<forall>k<unat (nelts ps). desc (query_set ps ! k) \<noteq> desc d"
  shows "apr_pollset_remove_select H ps d = (APR_NOTFOUND, ps)"
  using remove_find_select_count [of _ "desc d" 0 ps] no_match_filter [OF assms]
  by (simp add: apr_pollset_remove_select_def prod_eq_iff Let_def)

end
